theory Spec2Isabelle
  imports Main
begin

section \<open>Listing identifiers (hh\_auto\_apply/utils.py)\<close>

text \<open>
  URLs are Python \<^verbatim>\<open>str\<close> values; they are modelled as \<^typ>\<open>string\<close>, one
  \<^typ>\<open>char\<close> per code point below 256. On that range the class \<^verbatim>\<open>\d\<close> of the
  regular expression \<^verbatim>\<open>/vacancy/(\d+)\<close> is exactly the ten ASCII digits.
\<close>

definition is_digit :: "char \<Rightarrow> bool" where
  "is_digit c = (c \<in> set ''0123456789'')"

text \<open>\<open>strip_prefix p s\<close>: what follows \<open>p\<close> in \<open>s\<close> when \<open>s\<close> starts with \<open>p\<close>.\<close>

fun strip_prefix :: "string \<Rightarrow> string \<Rightarrow> string option" where
  "strip_prefix [] s = Some s"
| "strip_prefix (p # ps) [] = None"
| "strip_prefix (p # ps) (c # cs) = (if p = c then strip_prefix ps cs else None)"

text \<open>
  The pattern \<^verbatim>\<open>/vacancy/(\d+)\<close> anchored at the start of \<open>s\<close>: group 1 is the
  longest run of digits after the literal, and the run must not be empty.
\<close>

definition match_here :: "string \<Rightarrow> string option" where
  "match_here s =
     (case strip_prefix ''/vacancy/'' s of
        None \<Rightarrow> None
      | Some rest \<Rightarrow>
          (if takeWhile is_digit rest = [] then None else Some (takeWhile is_digit rest)))"

text \<open>\<^verbatim>\<open>VAC_ID_RE.search(url)\<close>: the leftmost match, tried at every start position.\<close>

fun VAC_ID_RE_search :: "string \<Rightarrow> string option" where
  "VAC_ID_RE_search [] = None"
| "VAC_ID_RE_search (c # cs) =
     (case match_here (c # cs) of
        Some g \<Rightarrow> Some g
      | None \<Rightarrow> VAC_ID_RE_search cs)"

text \<open>\<^verbatim>\<open>s.split(sep)\<close> for a one-character separator: never the empty list.\<close>

fun split_on :: "char \<Rightarrow> string \<Rightarrow> string list" where
  "split_on sep [] = [[]]"
| "split_on sep (c # cs) =
     (if c = sep then [] # split_on sep cs
      else (case split_on sep cs of
              [] \<Rightarrow> [[c]]
            | w # ws \<Rightarrow> (c # w) # ws))"

text \<open>
  \<^verbatim>\<open>m = VAC_ID_RE.search(url)\<close>
  \<^verbatim>\<open>return m.group(1) if m else url.split("/")[-1].split("?")[0]\<close>
\<close>

definition extract_vacancy_id :: "string \<Rightarrow> string" where
  "extract_vacancy_id url =
     (case VAC_ID_RE_search url of
        Some g \<Rightarrow> g
      | None \<Rightarrow> hd (split_on (CHR ''?'') (last (split_on (CHR ''/'') url))))"

text \<open>
  The two parts of a URL: the path (everything before the first question mark) and the
  query string (the first question mark and what follows it; empty when there is none).
\<close>

definition path_of :: "string \<Rightarrow> string" where
  "path_of u = takeWhile (\<lambda>c. c \<noteq> CHR ''?'') u"

definition query_of :: "string \<Rightarrow> string" where
  "query_of u = dropWhile (\<lambda>c. c \<noteq> CHR ''?'') u"

text \<open>The last non-empty segment of a path, in the words of the specification.\<close>

definition last_nonempty_segment :: "string \<Rightarrow> string" where
  "last_nonempty_segment p = last (filter (\<lambda>s. s \<noteq> []) (split_on (CHR ''/'') p))"

section \<open>Page text\<close>

text \<open>
  Text read from or written to the page (cover letter, resume titles, attribute values)
  is a Python \<^verbatim>\<open>str\<close>: a sequence of Unicode code points, and \<^verbatim>\<open>len\<close> counts
  code points. The text is Cyrillic, so a code point is a natural number here.
\<close>

type_synonym pystr = "nat list"

definition py :: "string \<Rightarrow> pystr" where
  "py s = map of_char s"

text \<open>The code points for which \<^verbatim>\<open>str.isspace\<close> holds; \<^verbatim>\<open>str.strip()\<close> removes them.\<close>

definition isspace :: "nat \<Rightarrow> bool" where
  "isspace c =
     (c \<in> set [9, 10, 11, 12, 13, 28, 29, 30, 31, 32, 133, 160, 5760,
                 8192, 8193, 8194, 8195, 8196, 8197, 8198, 8199, 8200, 8201, 8202,
                 8232, 8233, 8239, 8287, 12288])"

definition strip :: "pystr \<Rightarrow> pystr" where
  "strip s = rev (dropWhile isspace (rev (dropWhile isspace s)))"

fun starts_with :: "pystr \<Rightarrow> pystr \<Rightarrow> bool" where
  "starts_with s [] = True"
| "starts_with [] (m # ms) = False"
| "starts_with (c # cs) (m # ms) = (c = m \<and> starts_with cs ms)"

text \<open>\<^verbatim>\<open>mask in text\<close>\<close>

fun contains :: "pystr \<Rightarrow> pystr \<Rightarrow> bool" where
  "contains [] m = (m = [])"
| "contains (c # cs) m = (starts_with (c # cs) m \<or> contains cs m)"

section \<open>The browser (Playwright) as an environment\<close>

text \<open>
  The client drives a Playwright page. The page is not part of the program: what it
  answers depends on the site. It is modelled as an oracle that answers each call from
  the history of all calls made so far, so a theorem about every \<open>browser\<close> is a
  theorem about every behaviour of the site. The history is the state of the model, and
  it doubles as the record of what the client did.
\<close>

datatype exn = PWTimeoutError | PWError | AttributeError | NameError | UnboundLocalError

text \<open>
  Texts the client looks for, transliterated: \<open>OTKLIKNUTSYA\<close> is the label of the apply
  control, \<open>DOBAVIT_SOPROVODITELNOE\<close> the label of the control that reveals the
  cover-letter field, and the other four are \<^verbatim>\<open>Selectors.ALREADY_APPLIED_TEXT\<close>.
\<close>

datatype phrase =
    OTKLIKNUTSYA
  | DOBAVIT_SOPROVODITELNOE
  | OTKLIK_OTPRAVLEN
  | VY_OTKLIKNULIS
  | OTKLIK_UZHE_OTPRAVLEN
  | OTKLIK_OTPRAVLEN_RABOTODATELYU

text \<open>
  The selector constants of selectors.py, grouped by what they locate, under their own
  names. \<open>RESUME_TEXT_DIV\<close>, \<open>RESUME_TEXT_LABEL\<close> and \<open>RESUME_TEXT_LINK\<close> are the three
  XPath expressions that \<^verbatim>\<open>select_specific_resume\<close> builds from the mask;
  \<open>RADIO_INPUT\<close> is its literal \<^verbatim>\<open>input[type="radio"]\<close>; the \<open>DESC\<close> selectors are
  the eight literals of \<^verbatim>\<open>_get_vacancy_description\<close>.
\<close>

datatype apply_selector =
  APPLY_BUTTON_ROLE | APPLY_LINK_ROLE | APPLY_BUTTON_TOP | APPLY_BUTTON_SIDEBAR

datatype title_selector =
  VACANCY_TITLE_H1 | VACANCY_TITLE_QA | VACANCY_TITLE_VIEW_QA | VACANCY_TITLE_CLASS

datatype resume_selector =
    RESUME_SELECT_ITEM | RESUME_SELECT_ITEM_IN_GROUP | RESUME_GENERIC_QA
  | RESUME_LABEL_WITH_TEXT | RESUME_FALLBACK_INPUT | RESUME_FALLBACK_RADIO
  | RESUME_TEXT_DIV pystr | RESUME_TEXT_LABEL pystr | RESUME_TEXT_LINK pystr

datatype cover_selector =
    COVER_LETTER_TOGGLE | COVER_LETTER_TEXTAREA | COVER_LETTER_TEXTAREA_PLACEHOLDER
  | COVER_LETTER_TEXTAREA_GENERIC

datatype consent_selector =
  CONSENT_CHECKBOX_AGREEMENT | CONSENT_CHECKBOX_QA | CONSENT_CHECKBOX_REQUIRED

datatype submit_selector =
  SUBMIT_BUTTON | SUBMIT_BUTTON_TEXT_1 | SUBMIT_BUTTON_TEXT_2 | SUBMIT_BUTTON_GENERIC_QA

datatype description_selector =
    DESC_QA_VACANCY_DESCRIPTION | DESC_QA_JOB_DESCRIPTION | DESC_CLASS_VACANCY_DESCRIPTION
  | DESC_CLASS_JOB_DESCRIPTION | DESC_QA_DESCRIPTION_TEXT | DESC_CLASS_DESCRIPTION_TEXT
  | DESC_QA_VACANCY_CONTENT | DESC_CLASS_VACANCY_CONTENT

datatype selector =
    Apply apply_selector
  | Title title_selector
  | Resume resume_selector
  | Cover cover_selector
  | Consent consent_selector
  | Submit submit_selector
  | Description description_selector
  | RADIO_INPUT

text \<open>
  Locators are lazy descriptions of elements: \<^verbatim>\<open>page.locator(sel)\<close>,
  \<^verbatim>\<open>page.get_by_role("button", name=...)\<close>, \<^verbatim>\<open>page.get_by_role("link", name=...)\<close>,
  \<^verbatim>\<open>page.get_by_text(...)\<close>, \<^verbatim>\<open>loc.first\<close>, \<^verbatim>\<open>loc.nth(i)\<close> and
  \<^verbatim>\<open>loc.locator(sel)\<close>. Building one calls nothing.
\<close>

datatype locator =
    Loc selector
  | ByRoleButton phrase
  | ByRoleLink phrase
  | ByText phrase
  | First locator
  | Nth locator nat
  | Inside locator selector

text \<open>\<^verbatim>\<open>human_pause(cfg)\<close> and \<^verbatim>\<open>human_pause(cfg, a, b)\<close>, the bounds in milliseconds.\<close>

datatype pause = DefaultPause | PauseBetween nat nat

text \<open>
  The calls the client makes. \<open>WaitVisible l t\<close> is
  \<^verbatim>\<open>l.wait_for(state="visible", timeout=t)\<close>, \<open>IsVisibleNow l\<close> is \<^verbatim>\<open>l.is_visible()\<close>,
  \<open>Click l force\<close> is \<^verbatim>\<open>l.click(force=force)\<close>.
\<close>

datatype action =
    NewPage
  | OnConsole
  | SetDefaultTimeout nat
  | Goto string nat
  | ClosePage
  | PageTitle
  | Screenshot string
  | WaitVisible locator nat
  | Count locator
  | IsVisibleNow locator
  | IsChecked locator
  | GetAttribute locator string
  | InnerText locator
  | InputValue locator
  | Click locator bool
  | Check locator
  | Fill locator pystr
  | ScrollIntoView locator
  | KeyboardPress string
  | WaitForTimeout nat
  | HumanPause pause

text \<open>
  A history lists the calls made so far, the latest first. For a call \<open>a\<close> made after
  the history \<open>h\<close>, \<open>raises b h a\<close> says whether the call raises and which exception; when
  it does not, the reply of the call's type is the call's result.
\<close>

record browser =
  raises :: "action list \<Rightarrow> action \<Rightarrow> exn option"
  count_reply :: "action list \<Rightarrow> action \<Rightarrow> nat"
  bool_reply :: "action list \<Rightarrow> action \<Rightarrow> bool"
  text_reply :: "action list \<Rightarrow> action \<Rightarrow> pystr"
  attr_reply :: "action list \<Rightarrow> action \<Rightarrow> pystr option"

text \<open>
  A piece of client code maps the history before it to its outcome (\<open>Inl\<close> the exception
  it raises, \<open>Inr\<close> the value it returns) and the history after it.
\<close>

type_synonym 'a prog = "action list \<Rightarrow> (exn + 'a) \<times> action list"

definition ret :: "'a \<Rightarrow> 'a prog" where
  "ret x h = (Inr x, h)"

definition raise :: "exn \<Rightarrow> 'a prog" where
  "raise e h = (Inl e, h)"

text \<open>Sequencing: an exception of the first part skips the second.\<close>

definition bind :: "'a prog \<Rightarrow> ('a \<Rightarrow> 'b prog) \<Rightarrow> 'b prog" where
  "bind m f h = (case m h of (Inl e, h') \<Rightarrow> (Inl e, h') | (Inr x, h') \<Rightarrow> f x h')"

text \<open>\<^verbatim>\<open>try: m  except Exception as e: handler(e)\<close>\<close>

definition try_except :: "'a prog \<Rightarrow> (exn \<Rightarrow> 'a prog) \<Rightarrow> 'a prog" where
  "try_except m handler h =
     (case m h of (Inl e, h') \<Rightarrow> handler e h' | (Inr x, h') \<Rightarrow> (Inr x, h'))"

text \<open>
  \<^verbatim>\<open>try: m  except Exception as e: handler(e)\<close> followed by \<open>rest\<close>, which the handler
  does not protect.
\<close>

definition try_then :: "'a prog \<Rightarrow> (exn \<Rightarrow> 'b prog) \<Rightarrow> ('a \<Rightarrow> 'b prog) \<Rightarrow> 'b prog" where
  "try_then m handler rest h =
     (case m h of (Inl e, h') \<Rightarrow> handler e h' | (Inr x, h') \<Rightarrow> rest x h')"

text \<open>
  \<^verbatim>\<open>try: m  finally: fin\<close>: \<open>fin\<close> runs on every exit of \<open>m\<close>; an exception of \<open>fin\<close>
  replaces the outcome of \<open>m\<close>.
\<close>

definition try_finally :: "'a prog \<Rightarrow> unit prog \<Rightarrow> 'a prog" where
  "try_finally m fin h =
     (case m h of
        (r, h') \<Rightarrow> (case fin h' of (Inl e, h'') \<Rightarrow> (Inl e, h'') | (Inr u, h'') \<Rightarrow> (r, h'')))"

text \<open>One call to the browser: it enters the history whether or not it raises.\<close>

definition ask :: "browser \<Rightarrow> (browser \<Rightarrow> action list \<Rightarrow> action \<Rightarrow> 'a) \<Rightarrow> action \<Rightarrow> 'a prog" where
  "ask b reply a h =
     (case raises b h a of
        Some e \<Rightarrow> (Inl e, a # h)
      | None \<Rightarrow> (Inr (reply b h a), a # h))"

definition perform :: "browser \<Rightarrow> action \<Rightarrow> unit prog" where
  "perform b a = ask b (\<lambda>b h a. ()) a"

text \<open>
  \<^verbatim>\<open>human_pause\<close> sleeps; it calls nothing on the page and does not raise, but time
  passes, so it enters the history.
\<close>

definition human_pause :: "pause \<Rightarrow> unit prog" where
  "human_pause p h = (Inr (), HumanPause p # h)"
section \<open>The client (hh\_auto\_apply/client.py)\<close>

text \<open>
  The fields of \<^verbatim>\<open>Config\<close> (config.py) that the listing workflow and the main loop
  read.
\<close>

record config =
  max_applies :: nat
  require_cover_letter :: bool
  fail_if_resume_not_found :: bool
  resume_match :: pystr

datatype ApplyResult = SUCCESS | SKIPPED_ALREADY_APPLIED | ERROR

subsection \<open>Helpers\<close>

text \<open>
  \<^verbatim>\<open>is_visible(locator, timeout)\<close>: waits for \<^verbatim>\<open>locator.first\<close>; any exception of
  the wait is the answer False.
\<close>

definition is_visible :: "browser \<Rightarrow> locator \<Rightarrow> nat \<Rightarrow> bool prog" where
  "is_visible b loc timeout =
     try_except
       (bind (perform b (WaitVisible (First loc) timeout)) (\<lambda>u. ret True))
       (\<lambda>e. ret False)"

text \<open>
  \<^verbatim>\<open>make_shot(page, tag)\<close>: the screenshot call is inside a try block, so neither a
  failing screenshot nor a \<open>page\<close> that is still None (\<open>page_open\<close> false: the attribute
  lookup on None raises before any call) raises out of it.
\<close>

definition make_shot :: "browser \<Rightarrow> bool \<Rightarrow> string \<Rightarrow> unit prog" where
  "make_shot b page_open tag =
     try_except
       (if page_open then perform b (Screenshot tag) else raise AttributeError)
       (\<lambda>e. ret ())"

subsection \<open>Apply entry point and the already-applied signal\<close>

definition apply_candidates :: "locator list" where
  "apply_candidates =
     [ByRoleButton OTKLIKNUTSYA, ByRoleLink OTKLIKNUTSYA,
      Loc (Apply APPLY_BUTTON_TOP), Loc (Apply APPLY_BUTTON_SIDEBAR),
      Loc (Apply APPLY_BUTTON_ROLE), Loc (Apply APPLY_LINK_ROLE)]"

fun first_visible_candidate :: "browser \<Rightarrow> locator list \<Rightarrow> locator option prog" where
  "first_visible_candidate b [] = ret None"
| "first_visible_candidate b (c # cs) =
     bind (is_visible b c 900)
       (\<lambda>v. if v then ret (Some (First c)) else first_visible_candidate b cs)"

definition get_apply_button :: "browser \<Rightarrow> locator option prog" where
  "get_apply_button b = first_visible_candidate b apply_candidates"

definition ALREADY_APPLIED_TEXT :: "phrase list" where
  "ALREADY_APPLIED_TEXT =
     [OTKLIK_OTPRAVLEN, VY_OTKLIKNULIS, OTKLIK_UZHE_OTPRAVLEN, OTKLIK_OTPRAVLEN_RABOTODATELYU]"

fun confirmation_visible :: "browser \<Rightarrow> phrase list \<Rightarrow> bool prog" where
  "confirmation_visible b [] = ret False"
| "confirmation_visible b (txt # txts) =
     bind (is_visible b (ByText txt) 500)
       (\<lambda>v. if v then ret True else confirmation_visible b txts)"

definition already_applied :: "browser \<Rightarrow> bool prog" where
  "already_applied b =
     bind (confirmation_visible b ALREADY_APPLIED_TEXT)
       (\<lambda>found. if found then ret True
                 else bind (get_apply_button b) (\<lambda>btn. ret (btn = None)))"

subsection \<open>Resume selection\<close>

text \<open>
  The body shared by both passes of \<^verbatim>\<open>select_specific_resume\<close>: check the radio
  input inside \<open>item\<close> when there is a visible one, otherwise click \<open>target\<close>.
\<close>

definition activate_resume :: "browser \<Rightarrow> locator \<Rightarrow> locator \<Rightarrow> unit prog" where
  "activate_resume b item target =
     (let radio = First (Inside item RADIO_INPUT) in
      bind (ask b count_reply (Count radio))
        (\<lambda>n. bind (if 0 < n then ask b bool_reply (IsVisibleNow radio) else ret False)
          (\<lambda>v. if v then perform b (Check radio) else perform b (Click target False))))"

text \<open>
  The pass over the text-matching XPath expressions. \<^verbatim>\<open>loc.count()\<close> is outside the
  try block, so its exception leaves the function; an exception while activating moves
  on to the next expression. True stands for \<^verbatim>\<open>return True\<close>.
\<close>

fun select_textual :: "browser \<Rightarrow> selector list \<Rightarrow> bool prog" where
  "select_textual b [] = ret False"
| "select_textual b (sel # sels) =
     bind (ask b count_reply (Count (Loc sel)))
       (\<lambda>n. bind (if 0 < n then is_visible b (Loc sel) 700 else ret False)
         (\<lambda>v. if v
               then bind
                      (try_except
                         (bind (activate_resume b (Loc sel) (First (Loc sel))) (\<lambda>u. ret True))
                         (\<lambda>e. ret False))
                      (\<lambda>selected. if selected then ret True else select_textual b sels)
               else select_textual b sels))"

text \<open>
  One container item: the whole body is inside the try block. The title is compared
  with the mask \<open>msk\<close> after \<^verbatim>\<open>.strip().lower()\<close>; Python's case mapping is the
  parameter \<open>lower\<close>.
\<close>

definition select_item :: "browser \<Rightarrow> (pystr \<Rightarrow> pystr) \<Rightarrow> pystr \<Rightarrow> locator \<Rightarrow> bool prog" where
  "select_item b lower msk item =
     try_except
       (bind (is_visible b item 400)
          (\<lambda>v. if \<not> v then ret False
                else bind (ask b text_reply (InnerText item))
                  (\<lambda>text. if contains (lower (strip text)) msk
                           then bind (activate_resume b item item) (\<lambda>u. ret True)
                           else ret False)))
       (\<lambda>e. ret False)"

fun select_items :: "browser \<Rightarrow> (pystr \<Rightarrow> pystr) \<Rightarrow> pystr \<Rightarrow> locator \<Rightarrow> nat list \<Rightarrow> bool prog" where
  "select_items b lower msk items [] = ret False"
| "select_items b lower msk items (i # is) =
     bind (select_item b lower msk (Nth items i))
       (\<lambda>selected. if selected then ret True else select_items b lower msk items is)"

fun select_containers :: "browser \<Rightarrow> (pystr \<Rightarrow> pystr) \<Rightarrow> pystr \<Rightarrow> selector list \<Rightarrow> bool prog" where
  "select_containers b lower msk [] = ret False"
| "select_containers b lower msk (sel # sels) =
     bind (ask b count_reply (Count (Loc sel)))
       (\<lambda>n. bind (select_items b lower msk (Loc sel) [0 ..< min n 10])
         (\<lambda>selected. if selected then ret True else select_containers b lower msk sels))"

definition resume_containers :: "selector list" where
  "resume_containers =
     [Resume RESUME_SELECT_ITEM, Resume RESUME_SELECT_ITEM_IN_GROUP,
      Resume RESUME_GENERIC_QA, Resume RESUME_LABEL_WITH_TEXT]"

definition resume_textual :: "pystr \<Rightarrow> selector list" where
  "resume_textual msk =
     [Resume (RESUME_TEXT_DIV msk), Resume (RESUME_TEXT_LABEL msk), Resume (RESUME_TEXT_LINK msk)]"

definition select_specific_resume :: "browser \<Rightarrow> (pystr \<Rightarrow> pystr) \<Rightarrow> pystr \<Rightarrow> bool prog" where
  "select_specific_resume b lower msk =
     bind (select_textual b (resume_textual msk))
       (\<lambda>selected. if selected then ret True
                    else select_containers b lower msk resume_containers)"

definition resume_fallbacks :: "selector list" where
  "resume_fallbacks =
     [Resume RESUME_SELECT_ITEM, Resume RESUME_FALLBACK_INPUT, Resume RESUME_FALLBACK_RADIO]"

fun select_any_from :: "browser \<Rightarrow> (pystr \<Rightarrow> pystr) \<Rightarrow> selector list \<Rightarrow> bool prog" where
  "select_any_from b lower [] = ret False"
| "select_any_from b lower (sel # sels) =
     bind (ask b count_reply (Count (Loc sel)))
       (\<lambda>n. bind (if 0 < n then is_visible b (Loc sel) 800 else ret False)
         (\<lambda>v. if v
               then bind
                      (try_except
                         (bind (ask b attr_reply (GetAttribute (First (Loc sel)) ''type''))
                            (\<lambda>t. bind
                                   (if lower (case t of None \<Rightarrow> [] | Some s \<Rightarrow> s) = py ''radio''
                                    then perform b (Check (First (Loc sel)))
                                    else perform b (Click (First (Loc sel)) False))
                                   (\<lambda>u. ret True)))
                         (\<lambda>e. ret False))
                      (\<lambda>selected. if selected then ret True else select_any_from b lower sels)
               else select_any_from b lower sels))"

definition select_any_resume_if_needed :: "browser \<Rightarrow> (pystr \<Rightarrow> pystr) \<Rightarrow> bool prog" where
  "select_any_resume_if_needed b lower = select_any_from b lower resume_fallbacks"

subsection \<open>Consent checkboxes\<close>

definition check_box :: "browser \<Rightarrow> locator \<Rightarrow> unit prog" where
  "check_box b box =
     try_except
       (bind (is_visible b box 300)
          (\<lambda>v. if v
                then bind (ask b bool_reply (IsChecked box))
                       (\<lambda>checked. if \<not> checked then perform b (Check box) else ret ())
                else ret ()))
       (\<lambda>e. ret ())"

fun check_boxes :: "browser \<Rightarrow> locator \<Rightarrow> nat list \<Rightarrow> unit prog" where
  "check_boxes b boxes [] = ret ()"
| "check_boxes b boxes (i # is) =
     bind (check_box b (Nth boxes i)) (\<lambda>u. check_boxes b boxes is)"

fun check_consents_from :: "browser \<Rightarrow> selector list \<Rightarrow> unit prog" where
  "check_consents_from b [] = ret ()"
| "check_consents_from b (sel # sels) =
     bind (ask b count_reply (Count (Loc sel)))
       (\<lambda>n. bind (check_boxes b (Loc sel) [0 ..< min n 6])
         (\<lambda>u. check_consents_from b sels))"

definition consent_candidates :: "selector list" where
  "consent_candidates =
     [Consent CONSENT_CHECKBOX_AGREEMENT, Consent CONSENT_CHECKBOX_QA,
      Consent CONSENT_CHECKBOX_REQUIRED]"

definition check_consents_if_needed :: "browser \<Rightarrow> unit prog" where
  "check_consents_if_needed b =
     try_except (check_consents_from b consent_candidates) (\<lambda>e. ret ())"

subsection \<open>Cover letter\<close>

definition togglers :: "locator list" where
  "togglers =
     [ByRoleButton DOBAVIT_SOPROVODITELNOE, ByText DOBAVIT_SOPROVODITELNOE,
      Loc (Cover COVER_LETTER_TOGGLE)]"

fun reveal_cover_letter :: "browser \<Rightarrow> locator list \<Rightarrow> unit prog" where
  "reveal_cover_letter b [] = ret ()"
| "reveal_cover_letter b (t # ts) =
     bind (is_visible b t 800)
       (\<lambda>v. if v
             then bind (perform b (Click (First t) False))
                    (\<lambda>u. human_pause (PauseBetween 300 600))
             else reveal_cover_letter b ts)"

definition textarea_selectors :: "selector list" where
  "textarea_selectors =
     [Cover COVER_LETTER_TEXTAREA, Cover COVER_LETTER_TEXTAREA_PLACEHOLDER,
      Cover COVER_LETTER_TEXTAREA_GENERIC]"

text \<open>\<^verbatim>\<open>len(val) >= min(20, len(cover_text) // 2)\<close> for \<^verbatim>\<open>val = ta.input_value().strip()\<close>\<close>

definition readback_ok :: "pystr \<Rightarrow> pystr \<Rightarrow> bool" where
  "readback_ok cover_text readback = (min 20 (length cover_text div 2) \<le> length (strip readback))"

text \<open>
  One textarea strategy: the body of the inner loop, all of it inside the try block.
  True stands for \<^verbatim>\<open>return True\<close>; False for moving on to the next strategy.
\<close>

definition try_textarea :: "browser \<Rightarrow> pystr \<Rightarrow> selector \<Rightarrow> bool prog" where
  "try_textarea b cover_text sel =
     (let ta = First (Loc sel) in
      try_except
        (bind (is_visible b ta 900)
           (\<lambda>v. if \<not> v then ret False
                 else bind (perform b (Click ta False))
                   (\<lambda>u. bind (perform b (KeyboardPress ''Control+A''))
                     (\<lambda>u. bind (perform b (Fill ta cover_text))
                       (\<lambda>u. bind (human_pause (PauseBetween 200 400))
                         (\<lambda>u. bind (ask b text_reply (InputValue ta))
                           (\<lambda>val. ret (readback_ok cover_text val))))))))
        (\<lambda>e. ret False))"

fun fill_strategies :: "browser \<Rightarrow> pystr \<Rightarrow> selector list \<Rightarrow> bool prog" where
  "fill_strategies b cover_text [] = ret False"
| "fill_strategies b cover_text (sel # sels) =
     bind (try_textarea b cover_text sel)
       (\<lambda>ok. if ok then ret True else fill_strategies b cover_text sels)"

text \<open>\<^verbatim>\<open>for attempt in range(3)\<close>, as the number of attempts left.\<close>

fun fill_attempts :: "browser \<Rightarrow> pystr \<Rightarrow> nat \<Rightarrow> bool prog" where
  "fill_attempts b cover_text 0 = ret False"
| "fill_attempts b cover_text (Suc n) =
     bind (fill_strategies b cover_text textarea_selectors)
       (\<lambda>ok. if ok then ret True
              else bind (human_pause (PauseBetween 400 800))
                     (\<lambda>u. fill_attempts b cover_text n))"

definition fill_cover_letter_with_verification :: "browser \<Rightarrow> pystr \<Rightarrow> bool prog" where
  "fill_cover_letter_with_verification b cover_text =
     bind (try_except (reveal_cover_letter b togglers) (\<lambda>e. ret ()))
       (\<lambda>u. fill_attempts b cover_text 3)"

subsection \<open>Submission\<close>

definition submit_candidates :: "selector list" where
  "submit_candidates =
     [Submit SUBMIT_BUTTON, Submit SUBMIT_BUTTON_TEXT_1, Submit SUBMIT_BUTTON_TEXT_2,
      Submit SUBMIT_BUTTON_GENERIC_QA]"

text \<open>\<^verbatim>\<open>not disabled\<close> for an attribute value: true of None and of the empty string.\<close>

definition falsy :: "pystr option \<Rightarrow> bool" where
  "falsy v = (v = None \<or> v = Some [])"

text \<open>
  \<^verbatim>\<open>not disabled and (aria is None or aria == "false")\<close> for one candidate, the probe
  and both attribute reads inside the try block.
\<close>

definition submit_enabled :: "browser \<Rightarrow> locator \<Rightarrow> bool prog" where
  "submit_enabled b btn =
     try_except
       (bind (is_visible b btn 900)
          (\<lambda>v. if v
                then bind (ask b attr_reply (GetAttribute btn ''disabled''))
                       (\<lambda>disabled. bind (ask b attr_reply (GetAttribute btn ''aria-disabled''))
                         (\<lambda>aria. ret (falsy disabled \<and> (aria = None \<or> aria = Some (py ''false'')))))
                else ret False))
       (\<lambda>e. ret False)"

fun find_enabled_submit_from :: "browser \<Rightarrow> selector list \<Rightarrow> locator option prog" where
  "find_enabled_submit_from b [] = ret None"
| "find_enabled_submit_from b (sel # sels) =
     bind (submit_enabled b (First (Loc sel)))
       (\<lambda>ok. if ok then ret (Some (First (Loc sel))) else find_enabled_submit_from b sels)"

definition find_enabled_submit :: "browser \<Rightarrow> locator option prog" where
  "find_enabled_submit b = find_enabled_submit_from b submit_candidates"

text \<open>
  Click, wait, check the already-applied signal, wait and check once more. True stands
  for \<^verbatim>\<open>return True\<close>.
\<close>

definition click_and_verify :: "browser \<Rightarrow> locator \<Rightarrow> bool \<Rightarrow> bool prog" where
  "click_and_verify b btn force =
     bind (perform b (Click btn force))
       (\<lambda>u. bind (perform b (WaitForTimeout 1500))
         (\<lambda>u. bind (already_applied b)
           (\<lambda>applied. if applied then ret True
                       else bind (perform b (WaitForTimeout 1500))
                              (\<lambda>u. already_applied b))))"

text \<open>
  One cycle of the submission loop of client.py; True stands for \<^verbatim>\<open>return True\<close>.
  An exception of the first click-and-verify leads to one more after a longer pause.
\<close>

definition submit_cycle :: "browser \<Rightarrow> bool prog" where
  "submit_cycle b =
     bind (find_enabled_submit b)
       (\<lambda>found. case found of
          Some btn \<Rightarrow>
            bind (try_except (perform b (ScrollIntoView btn)) (\<lambda>e. ret ()))
              (\<lambda>u. bind (human_pause DefaultPause)
                (\<lambda>u. try_except (click_and_verify b btn True)
                       (\<lambda>e. bind (human_pause (PauseBetween 2000 4000))
                         (\<lambda>u. try_except (click_and_verify b btn True) (\<lambda>e. ret False)))))
        | None \<Rightarrow>
            bind (check_consents_if_needed b)
              (\<lambda>u. bind (human_pause (PauseBetween 1000 2000)) (\<lambda>u. ret False)))"

text \<open>\<^verbatim>\<open>for _ in range(3)\<close>, as the number of cycles left.\<close>

fun submit_loop :: "browser \<Rightarrow> nat \<Rightarrow> bool prog" where
  "submit_loop b 0 = ret False"
| "submit_loop b (Suc n) =
     bind (submit_cycle b) (\<lambda>ok. if ok then ret True else submit_loop b n)"

definition submit_with_retries :: "browser \<Rightarrow> bool prog" where
  "submit_with_retries b =
     bind (submit_loop b 3)
       (\<lambda>ok. if ok then ret True
              else bind (make_shot b True ''submit_fail'') (\<lambda>u. ret False))"

text \<open>
  \<^verbatim>\<open>add_cover_letter_and_submit\<close> of client.py. When the resume is not found and
  \<^verbatim>\<open>fail_if_resume_not_found\<close> is set, it takes the screenshot and goes on.
\<close>

definition add_cover_letter_and_submit ::
  "browser \<Rightarrow> config \<Rightarrow> (pystr \<Rightarrow> pystr) \<Rightarrow> pystr \<Rightarrow> bool prog" where
  "add_cover_letter_and_submit b cfg lower cover_text =
     bind (fill_cover_letter_with_verification b cover_text)
       (\<lambda>letter_ok.
          if require_cover_letter cfg \<and> \<not> letter_ok
          then bind (make_shot b True ''no_cover_letter'') (\<lambda>u. ret False)
          else bind (select_specific_resume b lower (resume_match cfg))
            (\<lambda>selected_exact.
               bind (if \<not> selected_exact
                     then (if fail_if_resume_not_found cfg
                           then make_shot b True ''resume_not_found''
                           else bind (select_any_resume_if_needed b lower) (\<lambda>r. ret ()))
                     else ret ())
                 (\<lambda>u. bind (check_consents_if_needed b) (\<lambda>u. submit_with_retries b))))"

text \<open>The outcome that \<^verbatim>\<open>apply_to_vacancy\<close> makes of the result.\<close>

definition outcome_of :: "bool \<Rightarrow> ApplyResult" where
  "outcome_of ok = (if ok then SUCCESS else ERROR)"

subsection \<open>The sibling workflow of hh\_auto\_apply\_refactored.py\<close>

text \<open>
  hh\_auto\_apply\_refactored.py holds an older copy of the client. Its helpers are those
  above, with the selector strings written in place. Its submission cycle clicks
  without \<^verbatim>\<open>force\<close> and has no second click, and its
  \<^verbatim>\<open>add_cover_letter_and_submit\<close> returns False when the resume is not found and
  \<^verbatim>\<open>fail_if_resume_not_found\<close> is set.
\<close>

definition submit_cycle_refactored :: "browser \<Rightarrow> bool prog" where
  "submit_cycle_refactored b =
     bind (find_enabled_submit b)
       (\<lambda>found. case found of
          Some btn \<Rightarrow>
            bind (try_except (perform b (ScrollIntoView btn)) (\<lambda>e. ret ()))
              (\<lambda>u. bind (human_pause DefaultPause)
                (\<lambda>u. try_except (click_and_verify b btn False) (\<lambda>e. ret False)))
        | None \<Rightarrow>
            bind (check_consents_if_needed b)
              (\<lambda>u. bind (human_pause (PauseBetween 1000 2000)) (\<lambda>u. ret False)))"

fun submit_loop_refactored :: "browser \<Rightarrow> nat \<Rightarrow> bool prog" where
  "submit_loop_refactored b 0 = ret False"
| "submit_loop_refactored b (Suc n) =
     bind (submit_cycle_refactored b)
       (\<lambda>ok. if ok then ret True else submit_loop_refactored b n)"

definition add_cover_letter_and_submit_refactored ::
  "browser \<Rightarrow> config \<Rightarrow> (pystr \<Rightarrow> pystr) \<Rightarrow> pystr \<Rightarrow> bool prog" where
  "add_cover_letter_and_submit_refactored b cfg lower cover_text =
     bind (fill_cover_letter_with_verification b cover_text)
       (\<lambda>letter_ok.
          if require_cover_letter cfg \<and> \<not> letter_ok
          then bind (make_shot b True ''no_cover_letter'') (\<lambda>u. ret False)
          else bind (select_specific_resume b lower (resume_match cfg))
            (\<lambda>selected_exact.
               if \<not> selected_exact \<and> fail_if_resume_not_found cfg
               then bind (make_shot b True ''resume_not_found'') (\<lambda>u. ret False)
               else bind (if \<not> selected_exact
                          then bind (select_any_resume_if_needed b lower) (\<lambda>r. ret ())
                          else ret ())
                      (\<lambda>u. bind (check_consents_if_needed b)
                        (\<lambda>u. bind (submit_loop_refactored b 3)
                          (\<lambda>ok. if ok then ret True
                                 else bind (make_shot b True ''submit_fail'')
                                        (\<lambda>u. ret False))))))"

subsection \<open>One listing\<close>

definition title_selectors :: "selector list" where
  "title_selectors =
     [Title VACANCY_TITLE_H1, Title VACANCY_TITLE_QA, Title VACANCY_TITLE_VIEW_QA,
      Title VACANCY_TITLE_CLASS]"

text \<open>One title selector, inside its try block; the empty text stands for no title.\<close>

definition read_title :: "browser \<Rightarrow> selector \<Rightarrow> pystr prog" where
  "read_title b sel =
     try_except
       (bind (ask b count_reply (Count (Loc sel)))
          (\<lambda>n. if 0 < n
                then bind (ask b text_reply (InnerText (First (Loc sel)))) (\<lambda>t. ret (strip t))
                else ret []))
       (\<lambda>e. ret [])"

fun find_title :: "browser \<Rightarrow> selector list \<Rightarrow> pystr prog" where
  "find_title b [] = ret []"
| "find_title b (sel # sels) =
     bind (read_title b sel) (\<lambda>t. if t \<noteq> [] then ret t else find_title b sels)"

definition extract_title :: "browser \<Rightarrow> pystr prog" where
  "extract_title b =
     bind (find_title b title_selectors)
       (\<lambda>title. if title = []
                 then try_except (bind (ask b text_reply PageTitle) (\<lambda>t. ret (strip t)))
                        (\<lambda>e. ret [])
                 else ret title)"

definition description_selectors :: "selector list" where
  "description_selectors =
     [Description DESC_QA_VACANCY_DESCRIPTION, Description DESC_QA_JOB_DESCRIPTION,
      Description DESC_CLASS_VACANCY_DESCRIPTION, Description DESC_CLASS_JOB_DESCRIPTION,
      Description DESC_QA_DESCRIPTION_TEXT, Description DESC_CLASS_DESCRIPTION_TEXT,
      Description DESC_QA_VACANCY_CONTENT, Description DESC_CLASS_VACANCY_CONTENT]"

definition read_description :: "browser \<Rightarrow> selector \<Rightarrow> pystr option prog" where
  "read_description b sel =
     try_except
       (bind (ask b count_reply (Count (Loc sel)))
          (\<lambda>n. bind (if 0 < n then is_visible b (Loc sel) 500 else ret False)
            (\<lambda>v. if v
                  then bind (ask b text_reply (InnerText (Loc sel)))
                         (\<lambda>text. if text \<noteq> [] \<and> 50 < length (strip text)
                                  then ret (Some (strip text))
                                  else ret None)
                  else ret None)))
       (\<lambda>e. ret None)"

fun find_description :: "browser \<Rightarrow> selector list \<Rightarrow> pystr prog" where
  "find_description b [] = ret []"
| "find_description b (sel # sels) =
     bind (read_description b sel)
       (\<lambda>r. case r of Some text \<Rightarrow> ret text | None \<Rightarrow> find_description b sels)"

definition get_vacancy_description :: "browser \<Rightarrow> pystr prog" where
  "get_vacancy_description b = find_description b description_selectors"

text \<open>
  \<^verbatim>\<open>apply_to_vacancy\<close> reads \<^verbatim>\<open>self.cfg.use_ai_cover_letter\<close> and
  \<^verbatim>\<open>self.cfg.openrouter_api_key\<close>. \<^verbatim>\<open>Config\<close> is a frozen dataclass whose fields
  are listed in config.py, and these two are not among them: reading either raises
  AttributeError. It also reads \<^verbatim>\<open>Selectors.FOREIGN_COUNTRY_MODAL_BUTTON\<close>, which the
  class \<^verbatim>\<open>Selectors\<close> of selectors.py does not have: AttributeError again.
\<close>

definition use_ai_cover_letter :: "config \<Rightarrow> bool prog" where
  "use_ai_cover_letter cfg = raise AttributeError"

definition openrouter_api_key :: "config \<Rightarrow> pystr prog" where
  "openrouter_api_key cfg = raise AttributeError"

definition FOREIGN_COUNTRY_MODAL_BUTTON :: "selector prog" where
  "FOREIGN_COUNTRY_MODAL_BUTTON = raise AttributeError"

text \<open>
  \<^verbatim>\<open>_generate_cover_letter\<close> builds the request headers and then reads
  \<^verbatim>\<open>self.cfg.ai_prompt_path\<close>, one more attribute that \<^verbatim>\<open>Config\<close> does not have,
  inside a try block that catches FileNotFoundError only: it raises AttributeError
  before any request is sent.
\<close>

definition generate_cover_letter :: "pystr \<Rightarrow> pystr \<Rightarrow> pystr prog" where
  "generate_cover_letter job_description api_key = raise AttributeError"

text \<open>
  The try block of \<^verbatim>\<open>apply_to_vacancy\<close> from the already-applied check to its end,
  with the title that was read. The condition
  \<^verbatim>\<open>self.cfg.use_ai_cover_letter and self.cfg.openrouter_api_key\<close> reads the first
  attribute, and the second only when the first is true.
\<close>

definition listing_body ::
  "browser \<Rightarrow> config \<Rightarrow> (pystr \<Rightarrow> pystr) \<Rightarrow> pystr \<Rightarrow> pystr \<Rightarrow> (ApplyResult \<times> pystr) prog" where
  "listing_body b cfg lower cover_text title =
     bind (already_applied b)
       (\<lambda>applied.
          if applied then ret (SKIPPED_ALREADY_APPLIED, title)
          else bind (get_apply_button b)
            (\<lambda>apply_btn.
               bind (bind (use_ai_cover_letter cfg)
                       (\<lambda>use_ai. if use_ai
                                 then bind (openrouter_api_key cfg) (\<lambda>api_key. ret (api_key \<noteq> []))
                                 else ret False))
                 (\<lambda>with_ai.
                    bind (if with_ai
                          then bind (get_vacancy_description b)
                                 (\<lambda>job_description.
                                    if job_description \<noteq> []
                                    then bind (openrouter_api_key cfg)
                                           (generate_cover_letter job_description)
                                    else ret [])
                          else ret [])
                      (\<lambda>generated_cover_letter.
                         bind (case apply_btn of
                                 Some btn \<Rightarrow>
                                   bind (try_except (perform b (Click btn False)) (\<lambda>e. ret ()))
                                     (\<lambda>u. bind (perform b (WaitForTimeout 1500))
                                       (\<lambda>u. bind FOREIGN_COUNTRY_MODAL_BUTTON
                                         (\<lambda>sel. bind (is_visible b (Loc sel) 2000)
                                           (\<lambda>v. if v
                                                 then try_except
                                                        (bind (perform b (Click (Loc sel) False))
                                                           (\<lambda>u. perform b (WaitForTimeout 1500)))
                                                        (\<lambda>e. ret ())
                                                 else ret ()))))
                               | None \<Rightarrow> ret ())
                           (\<lambda>u. bind (add_cover_letter_and_submit b cfg lower
                                        (if generated_cover_letter \<noteq> []
                                         then generated_cover_letter else cover_text))
                             (\<lambda>ok. ret (outcome_of ok, title)))))))"

text \<open>
  The except clauses of \<^verbatim>\<open>apply_to_vacancy\<close>, for an exception \<open>e\<close> of the try block.
  They are tried in order. The first is \<^verbatim>\<open>except PWTimeoutError\<close>: a screenshot, then
  \<^verbatim>\<open>return ApplyResult.ERROR, title\<close>, which needs \<open>title\<close> to be bound (\<open>None\<close>:
  the exception came before \<^verbatim>\<open>title = ""\<close>). The second names
  \<^verbatim>\<open>TargetClosedError\<close>, which client.py neither imports nor defines, so for every
  other exception evaluating that clause raises NameError, and the clauses after it
  (the second \<^verbatim>\<open>TargetClosedError\<close> and \<^verbatim>\<open>except Exception\<close>) are never reached.
\<close>

definition on_error :: "browser \<Rightarrow> bool \<Rightarrow> pystr option \<Rightarrow> exn \<Rightarrow> (ApplyResult \<times> pystr) prog" where
  "on_error b page_open title e =
     (if e = PWTimeoutError
      then bind (make_shot b page_open ''vacancy_timeout'')
             (\<lambda>u. case title of
                     None \<Rightarrow> raise UnboundLocalError
                   | Some t \<Rightarrow> ret (ERROR, t))
      else raise NameError)"

text \<open>
  The try block once \<^verbatim>\<open>context.new_page()\<close> has returned. The except clauses read
  the local \<open>title\<close>, so the block is cut where \<open>title\<close> changes: unbound during
  \<^verbatim>\<open>page.on\<close>, empty while the page loads, and the extracted title afterwards (reading
  the title raises nothing: each read is in a try block of its own).
\<close>

definition apply_on_page ::
  "browser \<Rightarrow> config \<Rightarrow> (pystr \<Rightarrow> pystr) \<Rightarrow> string \<Rightarrow> pystr \<Rightarrow> (ApplyResult \<times> pystr) prog" where
  "apply_on_page b cfg lower url cover_text =
     try_then (perform b OnConsole) (on_error b True None)
       (\<lambda>u. try_then
               (bind (perform b (SetDefaultTimeout 30000))
                  (\<lambda>u. bind (perform b (Goto url 30000)) (\<lambda>u. human_pause DefaultPause)))
               (on_error b True (Some []))
               (\<lambda>u. bind (extract_title b)
                  (\<lambda>title. try_except (listing_body b cfg lower cover_text title)
                              (on_error b True (Some title)))))"

text \<open>\<^verbatim>\<open>finally: if page: try: page.close() except Exception: ...\<close>\<close>

definition close_page :: "browser \<Rightarrow> unit prog" where
  "close_page b = try_except (perform b ClosePage) (\<lambda>e. ret ())"

text \<open>
  \<^verbatim>\<open>apply_to_vacancy(context, url, cover_text)\<close>. When \<^verbatim>\<open>context.new_page()\<close> raises,
  \<open>page\<close> is still None: the handlers run without a page and nothing is closed.
\<close>

definition apply_to_vacancy ::
  "browser \<Rightarrow> config \<Rightarrow> (pystr \<Rightarrow> pystr) \<Rightarrow> string \<Rightarrow> pystr \<Rightarrow> (ApplyResult \<times> pystr) prog" where
  "apply_to_vacancy b cfg lower url cover_text =
     try_then (perform b NewPage) (on_error b False None)
       (\<lambda>u. try_finally (apply_on_page b cfg lower url cover_text) (close_page b))"

section \<open>The seen-store and the main loop (persistence.py, app.py)\<close>

text \<open>
  The table \<^verbatim>\<open>seen_vacancies\<close>: the identifier is the primary key and
  \<^verbatim>\<open>first_seen_at\<close> a time, in seconds. ISO timestamps compare as the times they name.
\<close>

type_synonym seen_table = "string \<rightharpoonup> int"

definition is_seen :: "seen_table \<Rightarrow> string \<Rightarrow> bool" where
  "is_seen tbl vac_id = (tbl vac_id \<noteq> None)"

text \<open>\<^verbatim>\<open>INSERT OR IGNORE\<close>: a row that is there keeps its time.\<close>

definition insert_or_ignore :: "seen_table \<Rightarrow> string \<Rightarrow> int \<Rightarrow> seen_table" where
  "insert_or_ignore tbl vac_id now =
     (case tbl vac_id of None \<Rightarrow> tbl(vac_id \<mapsto> now) | Some t \<Rightarrow> tbl)"

text \<open>
  \<^verbatim>\<open>mark_seen\<close>: the insert is inside a try block whose handler only logs, so a failing
  insert (\<open>insert_fails\<close>) leaves the table as it was and raises nothing.
\<close>

definition mark_seen :: "bool \<Rightarrow> int \<Rightarrow> string \<Rightarrow> seen_table \<Rightarrow> seen_table" where
  "mark_seen insert_fails now vac_id tbl =
     (if insert_fails then tbl else insert_or_ignore tbl vac_id now)"

text \<open>\<^verbatim>\<open>cleanup(ttl_days)\<close>: deletes the rows first seen before the cutoff.\<close>

definition cleanup :: "int \<Rightarrow> int \<Rightarrow> seen_table \<Rightarrow> seen_table" where
  "cleanup ttl_days now tbl =
     (if ttl_days \<le> 0 then tbl
      else (\<lambda>vac_id. case tbl vac_id of
                        None \<Rightarrow> None
                      | Some t \<Rightarrow> if t < now - ttl_days * 86400 then None else Some t))"

record stats =
  found_links :: nat
  skipped_seen :: nat
  skipped_already :: nat
  opened :: nat
  applies_done :: nat
  errors :: nat

text \<open>What the loop did, the latest first.\<close>

datatype app_event =
    SkippedSeen string
  | Visited string ApplyResult
  | MarkSeen string
  | CsvRow pystr string

text \<open>
  What the loop holds: the seen-store, the counters, the local \<open>applies_done\<close>, the
  history of the browser and the journal of the loop.
\<close>

record app_state =
  seen :: seen_table
  counters :: stats
  done_count :: nat
  history :: "action list"
  journal :: "app_event list"

text \<open>
  What the loop cannot decide, each answered from the journal so far: whether a stop
  signal has arrived, the clock, whether the insert of \<^verbatim>\<open>mark_seen\<close> fails, and whether
  appending to the CSV report fails.
\<close>

record app_env =
  stop_requested :: "app_event list \<Rightarrow> bool"
  utcnow :: "app_event list \<Rightarrow> int"
  insert_fails :: "app_event list \<Rightarrow> bool"
  csv_fails :: "app_event list \<Rightarrow> bool"

text \<open>
  \<^verbatim>\<open>result, title = ...\<close>: the dry run or \<^verbatim>\<open>apply_to_vacancy\<close>.
\<close>

definition visit ::
  "browser \<Rightarrow> config \<Rightarrow> (pystr \<Rightarrow> pystr) \<Rightarrow> bool \<Rightarrow> string \<Rightarrow> pystr \<Rightarrow> (ApplyResult \<times> pystr) prog" where
  "visit b cfg lower dry_run vurl cover_text =
     (if dry_run then ret (SUCCESS, py ''(dry-run)'')
      else apply_to_vacancy b cfg lower vurl cover_text)"

text \<open>The bookkeeping after \<^verbatim>\<open>mark_seen\<close>, by result.\<close>

definition record_result :: "app_env \<Rightarrow> string \<Rightarrow> ApplyResult \<Rightarrow> pystr \<Rightarrow> app_state \<Rightarrow> app_state" where
  "record_result env vurl result title s =
     (case result of
        SUCCESS \<Rightarrow>
          (let s1 = s\<lparr>done_count := done_count s + 1,
                      counters := (counters s)\<lparr>applies_done := applies_done (counters s) + 1\<rparr>\<rparr>
           in if csv_fails env (journal s1) then s1
              else s1\<lparr>journal := CsvRow (if title \<noteq> [] then title else py vurl) vurl # journal s1\<rparr>)
      | SKIPPED_ALREADY_APPLIED \<Rightarrow>
          s\<lparr>counters := (counters s)\<lparr>skipped_already := skipped_already (counters s) + 1\<rparr>\<rparr>
      | ERROR \<Rightarrow>
          s\<lparr>counters := (counters s)\<lparr>errors := errors (counters s) + 1\<rparr>\<rparr>)"

text \<open>
  \<^verbatim>\<open>for vurl in links\<close> of \<^verbatim>\<open>App.run\<close>. An exception of \<^verbatim>\<open>apply_to_vacancy\<close> is
  not caught: it ends the loop (and the run) with the listing unmarked.
\<close>

fun process_links ::
  "app_env \<Rightarrow> browser \<Rightarrow> config \<Rightarrow> (pystr \<Rightarrow> pystr) \<Rightarrow> bool \<Rightarrow> pystr \<Rightarrow> string list \<Rightarrow>
   app_state \<Rightarrow> exn + app_state" where
  "process_links env b cfg lower dry_run cover_text [] s = Inr s"
| "process_links env b cfg lower dry_run cover_text (vurl # links) s =
     (if stop_requested env (journal s) then Inr s
      else if max_applies cfg \<le> done_count s then Inr s
      else if is_seen (seen s) (extract_vacancy_id vurl)
      then process_links env b cfg lower dry_run cover_text links
             (s\<lparr>counters := (counters s)\<lparr>skipped_seen := skipped_seen (counters s) + 1\<rparr>,
                journal := SkippedSeen (extract_vacancy_id vurl) # journal s\<rparr>)
      else
        (case visit b cfg lower dry_run vurl cover_text (history s) of
           (Inl e, h) \<Rightarrow> Inl e
         | (Inr (result, title), h) \<Rightarrow>
             (let s1 = s\<lparr>counters := (counters s)\<lparr>opened := opened (counters s) + 1\<rparr>,
                         history := h,
                         journal := Visited vurl result # journal s\<rparr>;
                  s2 = s1\<lparr>seen := mark_seen (insert_fails env (journal s1)) (utcnow env (journal s1))
                                     (extract_vacancy_id vurl) (seen s1),
                          journal := MarkSeen (extract_vacancy_id vurl) # journal s1\<rparr>;
                  s3 = record_result env vurl result title s2
              in process_links env b cfg lower dry_run cover_text links
                   (s3\<lparr>history := HumanPause DefaultPause # history s3\<rparr>))))"

section \<open>Reading a history\<close>

text \<open>What a call is about, read off the locator it is made on.\<close>

datatype concern =
    EntryPoint | Confirmation | TitleText | DescriptionText
  | CoverLetter | ResumeChoice | ConsentBox | SubmitControl

fun selector_concern :: "selector \<Rightarrow> concern" where
  "selector_concern (Apply s) = EntryPoint"
| "selector_concern (Title s) = TitleText"
| "selector_concern (Resume s) = ResumeChoice"
| "selector_concern (Cover s) = CoverLetter"
| "selector_concern (Consent s) = ConsentBox"
| "selector_concern (Submit s) = SubmitControl"
| "selector_concern (Description s) = DescriptionText"
| "selector_concern RADIO_INPUT = ResumeChoice"

fun phrase_concern :: "phrase \<Rightarrow> concern" where
  "phrase_concern OTKLIKNUTSYA = EntryPoint"
| "phrase_concern DOBAVIT_SOPROVODITELNOE = CoverLetter"
| "phrase_concern OTKLIK_OTPRAVLEN = Confirmation"
| "phrase_concern VY_OTKLIKNULIS = Confirmation"
| "phrase_concern OTKLIK_UZHE_OTPRAVLEN = Confirmation"
| "phrase_concern OTKLIK_OTPRAVLEN_RABOTODATELYU = Confirmation"

fun locator_concern :: "locator \<Rightarrow> concern" where
  "locator_concern (Loc s) = selector_concern s"
| "locator_concern (ByRoleButton p) = phrase_concern p"
| "locator_concern (ByRoleLink p) = phrase_concern p"
| "locator_concern (ByText p) = phrase_concern p"
| "locator_concern (First l) = locator_concern l"
| "locator_concern (Nth l i) = locator_concern l"
| "locator_concern (Inside l s) = locator_concern l"

text \<open>
  The only key press of the client is the select-all of the cover-letter filler. Calls
  on the page as a whole, pauses and screenshots have no concern.
\<close>

fun action_concern :: "action \<Rightarrow> concern option" where
  "action_concern (WaitVisible l t) = Some (locator_concern l)"
| "action_concern (Count l) = Some (locator_concern l)"
| "action_concern (IsVisibleNow l) = Some (locator_concern l)"
| "action_concern (IsChecked l) = Some (locator_concern l)"
| "action_concern (GetAttribute l n) = Some (locator_concern l)"
| "action_concern (InnerText l) = Some (locator_concern l)"
| "action_concern (InputValue l) = Some (locator_concern l)"
| "action_concern (Click l force) = Some (locator_concern l)"
| "action_concern (Check l) = Some (locator_concern l)"
| "action_concern (Fill l text) = Some (locator_concern l)"
| "action_concern (ScrollIntoView l) = Some (locator_concern l)"
| "action_concern (KeyboardPress k) = Some CoverLetter"
| "action_concern a = None"

definition about :: "concern \<Rightarrow> action \<Rightarrow> bool" where
  "about c a = (action_concern a = Some c)"

text \<open>A call of the application form: cover letter, resume, consent or submission.\<close>

definition form_action :: "action \<Rightarrow> bool" where
  "form_action a =
     (about CoverLetter a \<or> about ResumeChoice a \<or> about ConsentBox a \<or> about SubmitControl a)"

fun is_click :: "action \<Rightarrow> bool" where
  "is_click (Click l force) = True"
| "is_click a = False"

definition submit_click :: "action \<Rightarrow> bool" where
  "submit_click a = (is_click a \<and> about SubmitControl a)"

text \<open>
  A cycle of the submission loop starts by probing the first submit candidate, and a
  pass over the textarea strategies by probing the first textarea selector.
\<close>

definition cycle_start :: "action \<Rightarrow> bool" where
  "cycle_start a = (a = WaitVisible (First (First (Loc (Submit SUBMIT_BUTTON)))) 900)"

definition attempt_start :: "action \<Rightarrow> bool" where
  "attempt_start a = (a = WaitVisible (First (First (Loc (Cover COVER_LETTER_TEXTAREA)))) 900)"

fun is_fill :: "action \<Rightarrow> bool" where
  "is_fill (Fill l text) = True"
| "is_fill a = False"

definition count_where :: "(action \<Rightarrow> bool) \<Rightarrow> action list \<Rightarrow> nat" where
  "count_where P evs = length (filter P evs)"

text \<open>
  \<open>accepted_in b cover_text evs h\<close>: among the calls \<open>evs\<close> made after the history \<open>h\<close>
  there is a read-back of the textarea that did not raise and whose value passes the
  length check.
\<close>

fun is_readback :: "action \<Rightarrow> bool" where
  "is_readback (InputValue l) = True"
| "is_readback a = False"

fun accepted_in :: "browser \<Rightarrow> pystr \<Rightarrow> action list \<Rightarrow> action list \<Rightarrow> bool" where
  "accepted_in b cover_text [] h = False"
| "accepted_in b cover_text (a # evs) h =
     ((is_readback a \<and> raises b (evs @ h) a = None
        \<and> readback_ok cover_text (text_reply b (evs @ h) a))
      \<or> accepted_in b cover_text evs h)"

text \<open>Every call a program adds to the history satisfies \<open>P\<close>.\<close>

definition emits :: "(action \<Rightarrow> bool) \<Rightarrow> 'a prog \<Rightarrow> bool" where
  "emits P m = (\<forall>h. \<exists>evs. snd (m h) = evs @ h \<and> list_all P evs)"

text \<open>A program adds at most \<open>k\<close> calls that satisfy \<open>P\<close>.\<close>

definition adds :: "(action \<Rightarrow> bool) \<Rightarrow> nat \<Rightarrow> 'a prog \<Rightarrow> bool" where
  "adds P k m = (\<forall>h. \<exists>evs. snd (m h) = evs @ h \<and> count_where P evs \<le> k)"

text \<open>A program raises nothing.\<close>

definition total :: "'a prog \<Rightarrow> bool" where
  "total m = (\<forall>h. \<exists>x h'. m h = (Inr x, h'))"

text \<open>
  \<open>fill_run b cover_text k m\<close>: the piece \<open>m\<close> of the cover-letter filler raises nothing,
  returns True exactly when one of its read-backs is accepted, in which case that
  read-back is its last call and no earlier one was accepted, and starts at most \<open>k\<close>
  passes over the textarea strategies, all \<open>k\<close> of them when it returns False.
\<close>

definition fill_run :: "browser \<Rightarrow> pystr \<Rightarrow> nat \<Rightarrow> bool prog \<Rightarrow> bool" where
  "fill_run b cover_text k m =
     (\<forall>h. \<exists>evs. m h = (Inr (accepted_in b cover_text evs h), evs @ h)
         \<and> (if accepted_in b cover_text evs h
            then (\<exists>ta rest. evs = InputValue ta # rest \<and> \<not> accepted_in b cover_text rest h)
                 \<and> count_where attempt_start evs \<le> k
            else count_where attempt_start evs = k))"

text \<open>A visit of a listing with the identifier \<open>vac_id\<close>; a row of the CSV report.\<close>

fun visit_of :: "string \<Rightarrow> app_event \<Rightarrow> bool" where
  "visit_of vac_id (Visited vurl result) = (extract_vacancy_id vurl = vac_id)"
| "visit_of vac_id ev = False"

fun is_csv_row :: "app_event \<Rightarrow> bool" where
  "is_csv_row (CsvRow title link) = True"
| "is_csv_row ev = False"

text \<open>
  What can leave \<open>apply_to_vacancy\<close>: a result, or one of the two exceptions that its
  own except clauses raise.
\<close>

definition leaves_workflow :: "exn + 'a \<Rightarrow> bool" where
  "leaves_workflow r = (case r of Inr x \<Rightarrow> True | Inl e \<Rightarrow> e = NameError \<or> e = UnboundLocalError)"


section \<open>Example sites\<close>

text \<open>A page on which nothing ever becomes visible.\<close>

definition blank_site :: browser where
  "blank_site =
     \<lparr> raises = (\<lambda>h a. case a of WaitVisible l t \<Rightarrow> Some PWTimeoutError | _ \<Rightarrow> None),
       count_reply = (\<lambda>h a. 0),
       bool_reply = (\<lambda>h a. False),
       text_reply = (\<lambda>h a. []),
       attr_reply = (\<lambda>h a. None) \<rparr>"


text \<open>
  An application form with a cover-letter textarea that keeps what is written into it,
  no resume entries, no consent boxes and an enabled submit button; the confirmation
  text shows once the submit button has been clicked.
\<close>

definition form_site :: "pystr \<Rightarrow> browser" where
  "form_site kept =
     \<lparr> raises =
         (\<lambda>h a. case a of
            WaitVisible l t \<Rightarrow>
              (if l = First (First (Loc (Cover COVER_LETTER_TEXTAREA))) then None
               else if l = First (First (Loc (Submit SUBMIT_BUTTON))) then None
               else if l = First (ByText OTKLIK_OTPRAVLEN)
                       \<and> Click (First (Loc (Submit SUBMIT_BUTTON))) True \<in> set h then None
               else Some PWTimeoutError)
          | _ \<Rightarrow> None),
       count_reply = (\<lambda>h a. 0),
       bool_reply = (\<lambda>h a. False),
       text_reply = (\<lambda>h a. case a of InputValue l \<Rightarrow> kept | _ \<Rightarrow> []),
       attr_reply = (\<lambda>h a. None) \<rparr>"

text \<open>
  A visible submit button that carries the attribute \<^verbatim>\<open>disabled\<close> with the empty
  value, as \<^verbatim>\<open><button disabled>\<close> does, and no \<^verbatim>\<open>aria-disabled\<close>.
\<close>

definition disabled_site :: browser where
  "disabled_site =
     \<lparr> raises = (\<lambda>h a. None),
       count_reply = (\<lambda>h a. 0),
       bool_reply = (\<lambda>h a. False),
       text_reply = (\<lambda>h a. []),
       attr_reply = (\<lambda>h a. case a of
                        GetAttribute l n \<Rightarrow> (if n = ''disabled'' then Some [] else None)
                      | _ \<Rightarrow> None) \<rparr>"

text \<open>
  A listing page that shows the apply button and nothing else: no confirmation text, and
  no cover-letter textarea, resume entry, consent box or submit button ever becomes
  visible.
\<close>

definition entry_site :: browser where
  "entry_site =
     \<lparr> raises =
         (\<lambda>h a. case a of
            WaitVisible l t \<Rightarrow>
              (if l = First (ByRoleButton OTKLIKNUTSYA) then None else Some PWTimeoutError)
          | _ \<Rightarrow> None),
       count_reply = (\<lambda>h a. 0),
       bool_reply = (\<lambda>h a. False),
       text_reply = (\<lambda>h a. []),
       attr_reply = (\<lambda>h a. None) \<rparr>"

text \<open>A site whose navigation fails with the exception \<open>e\<close>.\<close>

definition unreachable_site :: "exn \<Rightarrow> browser" where
  "unreachable_site e =
     \<lparr> raises = (\<lambda>h a. case a of Goto url t \<Rightarrow> Some e | _ \<Rightarrow> None),
       count_reply = (\<lambda>h a. 0),
       bool_reply = (\<lambda>h a. False),
       text_reply = (\<lambda>h a. []),
       attr_reply = (\<lambda>h a. None) \<rparr>"

definition strict_config :: config where
  "strict_config =
     \<lparr> max_applies = 200, require_cover_letter = True, fail_if_resume_not_found = True,
       resume_match = py ''python'' \<rparr>"

definition lenient_config :: config where
  "lenient_config =
     \<lparr> max_applies = 200, require_cover_letter = False, fail_if_resume_not_found = False,
       resume_match = py ''python'' \<rparr>"

text \<open>A cover letter of forty code points.\<close>

definition letter40 :: pystr where
  "letter40 = replicate 40 1087"

text \<open>The surroundings of the loop: no stop signal, a fixed clock, a working CSV file.\<close>

definition quiet_env :: "bool \<Rightarrow> app_env" where
  "quiet_env db_down =
     \<lparr> stop_requested = (\<lambda>j. False), utcnow = (\<lambda>j. 1000),
       insert_fails = (\<lambda>j. db_down), csv_fails = (\<lambda>j. False) \<rparr>"

definition fresh_state :: app_state where
  "fresh_state =
     \<lparr> seen = Map.empty,
       counters = \<lparr> found_links = 0, skipped_seen = 0, skipped_already = 0, opened = 0,
                    applies_done = 0, errors = 0 \<rparr>,
       done_count = 0, history = [], journal = [] \<rparr>"

section \<open>Identifier extraction: what the query string can and cannot change\<close>

lemma split_on_nonempty: "split_on sep s \<noteq> []"
  by (induction s) (auto split: list.splits)

lemma split_on_no_sep: "sep \<notin> set q \<Longrightarrow> split_on sep q = [q]"
  by (induction q) auto

lemma split_on_append:
  "sep \<notin> set q \<Longrightarrow>
   split_on sep (p @ q) = butlast (split_on sep p) @ [last (split_on sep p) @ q]"
proof (induction p)
  case Nil
  then show ?case by (simp add: split_on_no_sep)
next
  case (Cons c p)
  then show ?case
    using split_on_nonempty [of sep p]
    by (cases "split_on sep p"; cases "tl (split_on sep p)") auto
qed

lemma last_split_append:
  "sep \<notin> set q \<Longrightarrow> last (split_on sep (p @ q)) = last (split_on sep p) @ q"
  by (simp add: split_on_append)

lemma last_split_subset: "set (last (split_on sep p)) \<subseteq> set p"
  using split_on_nonempty [of sep]
  by (induction p) (auto split: list.splits)

lemma hd_split_on: "hd (split_on sep s) = takeWhile (\<lambda>c. c \<noteq> sep) s"
  using split_on_nonempty [of sep]
  by (induction s) (auto split: list.splits)

text \<open>A pattern that ends in a character the suffix lacks cannot reach into the suffix.\<close>

lemma strip_prefix_short:
  "pat \<noteq> [] \<Longrightarrow> last pat \<notin> set q \<Longrightarrow> strip_prefix pat q = None"
  by (induction pat q rule: strip_prefix.induct) (auto split: if_splits)

lemma strip_prefix_append:
  "pat \<noteq> [] \<Longrightarrow> last pat \<notin> set q \<Longrightarrow>
   strip_prefix pat (p @ q) = map_option (\<lambda>r. r @ q) (strip_prefix pat p)"
proof (induction pat p rule: strip_prefix.induct)
  case (1 s)
  then show ?case by simp
next
  case (2 x xs)
  then show ?case using strip_prefix_short [of "x # xs" q] by simp
next
  case (3 x xs c cs)
  show ?case
  proof (cases xs)
    case Nil
    then show ?thesis by simp
  next
    case (Cons y ys)
    with 3 show ?thesis by simp
  qed
qed

lemma takeWhile_digit_append:
  "q = [] \<or> \<not> is_digit (hd q) \<Longrightarrow> takeWhile is_digit (r @ q) = takeWhile is_digit r"
  by (induction r) (cases q; auto)+

lemma match_here_append:
  assumes "CHR ''/'' \<notin> set q" and "q = [] \<or> \<not> is_digit (hd q)"
  shows "match_here (p @ q) = match_here p"
proof -
  have "strip_prefix ''/vacancy/'' (p @ q) = map_option (\<lambda>r. r @ q) (strip_prefix ''/vacancy/'' p)"
    using assms(1) by (intro strip_prefix_append) simp_all
  then show ?thesis
    using takeWhile_digit_append [OF assms(2)]
    by (simp add: match_here_def split: option.splits)
qed

lemma match_here_no_slash: "CHR ''/'' \<notin> set s \<Longrightarrow> match_here s = None"
  by (cases s) (auto simp: match_here_def)

lemma search_no_slash: "CHR ''/'' \<notin> set s \<Longrightarrow> VAC_ID_RE_search s = None"
  by (induction s) (auto simp: match_here_no_slash split: option.splits)

lemma search_append:
  assumes "CHR ''/'' \<notin> set q" and "q = [] \<or> \<not> is_digit (hd q)"
  shows "VAC_ID_RE_search (p @ q) = VAC_ID_RE_search p"
proof (induction p)
  case Nil
  then show ?case using assms(1) by (simp add: search_no_slash)
next
  case (Cons c p)
  have "match_here ((c # p) @ q) = match_here (c # p)"
    using assms by (rule match_here_append)
  with Cons show ?case by (simp split: option.splits)
qed

lemma path_query: "path_of u @ query_of u = u"
  by (simp add: path_of_def query_of_def)

lemma query_head: "query_of u = [] \<or> hd (query_of u) = CHR ''?''"
  unfolding query_of_def
  by (metis (mono_tags, lifting) hd_dropWhile)

lemma path_no_qmark: "CHR ''?'' \<notin> set (path_of u)"
  unfolding path_of_def by (auto dest: set_takeWhileD)

lemma path_of_path: "path_of (path_of u) = path_of u" "query_of (path_of u) = []"
  using path_no_qmark [of u]
  by (auto simp: path_of_def query_of_def takeWhile_eq_all_conv dropWhile_eq_Nil_conv)

lemma fallback_path:
  assumes "CHR ''/'' \<notin> set (query_of u)"
  shows "hd (split_on (CHR ''?'') (last (split_on (CHR ''/'') u)))
         = last (split_on (CHR ''/'') (path_of u))"
proof -
  let ?seg = "last (split_on (CHR ''/'') (path_of u))"
  have "last (split_on (CHR ''/'') u) = ?seg @ query_of u"
    using last_split_append [OF assms, of "path_of u"] by (simp add: path_query)
  moreover have "CHR ''?'' \<notin> set ?seg"
    using last_split_subset [of "CHR ''/''" "path_of u"] path_no_qmark [of u] by blast
  moreover have "takeWhile (\<lambda>c. c \<noteq> CHR ''?'') (?seg @ query_of u) = ?seg"
    using query_head [of u] calculation(2)
    by (cases "query_of u") (auto simp: takeWhile_append)
  ultimately show ?thesis by (simp add: hd_split_on)
qed

lemma search_path:
  assumes "CHR ''/'' \<notin> set (query_of u)"
  shows "VAC_ID_RE_search u = VAC_ID_RE_search (path_of u)"
proof -
  have "query_of u = [] \<or> \<not> is_digit (hd (query_of u))"
    using query_head [of u] by (auto simp: is_digit_def)
  from search_append [OF assms this, of "path_of u"] show ?thesis
    by (simp add: path_query)
qed

text \<open>
  C2 (the code departs from the claim). The two URLs below differ only in their query
  string, and \<open>extract_vacancy_id\<close> gives them different identifiers: the fallback cuts
  at the last slash before it cuts at the question mark, so a slash inside the query
  string moves the cut into the query.
\<close>

theorem query_slash_changes_id:
  "path_of ''https://hh.ru/some/path/5554433?from=/search'' = ''https://hh.ru/some/path/5554433''
   \<and> extract_vacancy_id ''https://hh.ru/some/path/5554433?from=/search'' = ''search''
   \<and> extract_vacancy_id ''https://hh.ru/some/path/5554433'' = ''5554433''"
  by (simp add: extract_vacancy_id_def path_of_def match_here_def is_digit_def)

text \<open>
  A query string without a slash never changes the identifier: the identifier of a URL
  is the identifier of its path.
\<close>

theorem id_of_path:
  assumes "CHR ''/'' \<notin> set (query_of u)"
  shows "extract_vacancy_id u = extract_vacancy_id (path_of u)"
proof -
  have "hd (split_on (CHR ''?'') (last (split_on (CHR ''/'') (path_of u))))
        = last (split_on (CHR ''/'') (path_of u))"
    using fallback_path [of "path_of u"] by (simp add: path_of_path)
  then show ?thesis
    using search_path [OF assms] fallback_path [OF assms]
    by (simp add: extract_vacancy_id_def split: option.splits)
qed

theorem id_of_path_witness:
  "CHR ''/'' \<notin> set (query_of ''https://spb.hh.ru/vacancy/87654321?query=python'')
   \<and> extract_vacancy_id ''https://spb.hh.ru/vacancy/87654321?query=python''
     = extract_vacancy_id ''https://spb.hh.ru/vacancy/87654321''"
proof -
  have q: "CHR ''/'' \<notin> set (query_of ''https://spb.hh.ru/vacancy/87654321?query=python'')"
    by (simp add: query_of_def)
  from id_of_path [OF q] show ?thesis
    using q by (simp add: path_of_def)
qed

text \<open>
  C9, as the specification states it, fails on a path that ends in a slash: the pattern
  finds no identifier, the last path segment that is not empty is \<open>path\<close>, and the
  function returns the empty string.
\<close>

theorem trailing_slash_counterexample:
  "VAC_ID_RE_search (path_of ''https://hh.ru/some/path/'') = None
   \<and> extract_vacancy_id ''https://hh.ru/some/path/'' = []
   \<and> last_nonempty_segment (path_of ''https://hh.ru/some/path/'') = ''path''"
  by (simp add: extract_vacancy_id_def path_of_def match_here_def last_nonempty_segment_def)

text \<open>
  C9 (amended). For every URL whose path has no match of \<^verbatim>\<open>/vacancy/<digits>\<close> and
  whose query string has no slash, \<open>extract_vacancy_id\<close> returns the last segment of the
  path, the text after the path's final slash, with the query string stripped; that
  segment is empty when the path ends in a slash.
\<close>

theorem fallback_id:
  assumes "VAC_ID_RE_search (path_of u) = None" and "CHR ''/'' \<notin> set (query_of u)"
  shows "extract_vacancy_id u = last (split_on (CHR ''/'') (path_of u))"
  using assms search_path [OF assms(2)] fallback_path [OF assms(2)]
  by (simp add: extract_vacancy_id_def)

theorem fallback_id_witness:
  "VAC_ID_RE_search (path_of ''https://hh.ru/some/path/5554433?from=search'') = None
   \<and> CHR ''/'' \<notin> set (query_of ''https://hh.ru/some/path/5554433?from=search'')
   \<and> extract_vacancy_id ''https://hh.ru/some/path/5554433?from=search'' = ''5554433''"
proof -
  have p: "VAC_ID_RE_search (path_of ''https://hh.ru/some/path/5554433?from=search'') = None"
    by (simp add: path_of_def match_here_def)
  have q: "CHR ''/'' \<notin> set (query_of ''https://hh.ru/some/path/5554433?from=search'')"
    by (simp add: query_of_def)
  from fallback_id [OF p q] show ?thesis
    using p q by (simp add: path_of_def)
qed

section \<open>The client on the example sites\<close>

lemmas prog_defs = ret_def raise_def bind_def try_except_def try_then_def try_finally_def
  ask_def perform_def human_pause_def is_visible_def make_shot_def

lemma fill_attempts_3: "fill_attempts b c 3 = fill_attempts b c (Suc (Suc (Suc 0)))"
  by (simp add: numeral_3_eq_3)

lemma submit_loop_3: "submit_loop b 3 = submit_loop b (Suc (Suc (Suc 0)))"
  by (simp add: numeral_3_eq_3)

lemma readback_letter40: "readback_ok letter40 letter40"
proof -
  have "length (strip letter40) = 40"
    by (simp add: letter40_def strip_def isspace_def)
  then show ?thesis
    by (simp add: readback_ok_def letter40_def)
qed

text \<open>
  C1 (the code departs from the claim). On \<open>form_site\<close> the cover letter is filled and
  read back, no resume entry exists, and \<open>strict_config\<close> sets
  \<^verbatim>\<open>fail_if_resume_not_found\<close>. \<open>add_cover_letter_and_submit\<close> of client.py takes the
  screenshot tagged \<open>resume_not_found\<close> and then goes on: it checks the consent boxes,
  clicks the submit button and returns True, which \<open>apply_to_vacancy\<close> reports as
  \<open>SUCCESS\<close>. The history is listed with the latest call first.
\<close>

theorem strict_mode_still_submits:
  "fail_if_resume_not_found strict_config
   \<and> outcome_of True = SUCCESS
   \<and> add_cover_letter_and_submit (form_site letter40) strict_config (\<lambda>s. s) letter40 [] =
  (Inr True,
  [WaitVisible (First (ByText OTKLIK_OTPRAVLEN)) 500, WaitForTimeout 1500,
   Click (First (Loc (Submit SUBMIT_BUTTON))) True, HumanPause DefaultPause,
   ScrollIntoView (First (Loc (Submit SUBMIT_BUTTON))),
   GetAttribute (First (Loc (Submit SUBMIT_BUTTON))) ''aria-disabled'',
   GetAttribute (First (Loc (Submit SUBMIT_BUTTON))) ''disabled'',
   WaitVisible (First (First (Loc (Submit SUBMIT_BUTTON)))) 900,
   Count (Loc (Consent CONSENT_CHECKBOX_REQUIRED)),
   Count (Loc (Consent CONSENT_CHECKBOX_QA)),
   Count (Loc (Consent CONSENT_CHECKBOX_AGREEMENT)),
   Screenshot ''resume_not_found'',
   Count (Loc (Resume RESUME_LABEL_WITH_TEXT)),
   Count (Loc (Resume RESUME_GENERIC_QA)),
   Count (Loc (Resume RESUME_SELECT_ITEM_IN_GROUP)),
   Count (Loc (Resume RESUME_SELECT_ITEM)),
   Count (Loc (Resume (RESUME_TEXT_LINK (py ''python'')))),
   Count (Loc (Resume (RESUME_TEXT_LABEL (py ''python'')))),
   Count (Loc (Resume (RESUME_TEXT_DIV (py ''python'')))),
   InputValue (First (Loc (Cover COVER_LETTER_TEXTAREA))),
   HumanPause (PauseBetween 200 400),
   Fill (First (Loc (Cover COVER_LETTER_TEXTAREA))) letter40,
   KeyboardPress ''Control+A'',
   Click (First (Loc (Cover COVER_LETTER_TEXTAREA))) False,
   WaitVisible (First (First (Loc (Cover COVER_LETTER_TEXTAREA)))) 900,
   WaitVisible (First (Loc (Cover COVER_LETTER_TOGGLE))) 800,
   WaitVisible (First (ByText DOBAVIT_SOPROVODITELNOE)) 800,
   WaitVisible (First (ByRoleButton DOBAVIT_SOPROVODITELNOE)) 800])"
  using readback_letter40
  by (simp add: add_cover_letter_and_submit_def fill_cover_letter_with_verification_def
      togglers_def textarea_selectors_def try_textarea_def select_specific_resume_def
      resume_textual_def resume_containers_def check_consents_if_needed_def
      consent_candidates_def submit_with_retries_def submit_cycle_def find_enabled_submit_def
      submit_candidates_def submit_enabled_def falsy_def click_and_verify_def
      already_applied_def ALREADY_APPLIED_TEXT_def fill_attempts_3 submit_loop_3 Let_def
      outcome_of_def form_site_def strict_config_def prog_defs)

text \<open>
  C3 (the code departs from the claim). When navigation raises an exception that is not
  a timeout, \<open>apply_to_vacancy\<close> closes the page and lets NameError out: no screenshot
  is taken and no outcome is returned. This holds for every configuration, URL and
  cover letter.
\<close>

theorem unclassified_exception_escapes:
  "apply_to_vacancy (unreachable_site PWError) cfg lower url cover_text [] =
   (Inl NameError, [ClosePage, Goto url 30000, SetDefaultTimeout 30000, OnConsole, NewPage])"
  by (simp add: apply_to_vacancy_def apply_on_page_def on_error_def close_page_def
      unreachable_site_def prog_defs)

text \<open>
  C7 (the code departs from the claim). \<open>strict_config\<close> requires a cover letter, and
  \<open>entry_site\<close> shows the apply button while no textarea ever becomes visible. Called
  on that page, \<open>add_cover_letter_and_submit\<close> makes its three passes over the textarea
  strategies, takes the screenshot tagged \<open>no_cover_letter\<close> and returns False.
  \<open>apply_to_vacancy\<close> does not get that far: once it has found the apply button, reading
  \<^verbatim>\<open>self.cfg.use_ai_cover_letter\<close> raises AttributeError, the clause
  \<^verbatim>\<open>except TargetClosedError\<close> turns it into NameError, and the listing ends with the
  page closed: no outcome is returned, no screenshot is taken, and the form is never
  probed. The histories are listed with the latest call first.
\<close>

theorem required_letter_never_reported:
  "require_cover_letter strict_config
   \<and> add_cover_letter_and_submit entry_site strict_config (\<lambda>s. s) letter40 [] =
  (Inr False,
  [Screenshot ''no_cover_letter'', HumanPause (PauseBetween 400 800),
   WaitVisible (First (First (Loc (Cover COVER_LETTER_TEXTAREA_GENERIC)))) 900,
   WaitVisible (First (First (Loc (Cover COVER_LETTER_TEXTAREA_PLACEHOLDER)))) 900,
   WaitVisible (First (First (Loc (Cover COVER_LETTER_TEXTAREA)))) 900,
   HumanPause (PauseBetween 400 800),
   WaitVisible (First (First (Loc (Cover COVER_LETTER_TEXTAREA_GENERIC)))) 900,
   WaitVisible (First (First (Loc (Cover COVER_LETTER_TEXTAREA_PLACEHOLDER)))) 900,
   WaitVisible (First (First (Loc (Cover COVER_LETTER_TEXTAREA)))) 900,
   HumanPause (PauseBetween 400 800),
   WaitVisible (First (First (Loc (Cover COVER_LETTER_TEXTAREA_GENERIC)))) 900,
   WaitVisible (First (First (Loc (Cover COVER_LETTER_TEXTAREA_PLACEHOLDER)))) 900,
   WaitVisible (First (First (Loc (Cover COVER_LETTER_TEXTAREA)))) 900,
   WaitVisible (First (Loc (Cover COVER_LETTER_TOGGLE))) 800,
   WaitVisible (First (ByText DOBAVIT_SOPROVODITELNOE)) 800,
   WaitVisible (First (ByRoleButton DOBAVIT_SOPROVODITELNOE)) 800])
   \<and> apply_to_vacancy entry_site strict_config (\<lambda>s. s) ''https://hh.ru/vacancy/1'' letter40 [] =
  (Inl NameError,
  [ClosePage,
   WaitVisible (First (ByRoleButton OTKLIKNUTSYA)) 900,
   WaitVisible (First (ByRoleButton OTKLIKNUTSYA)) 900,
   WaitVisible (First (ByText OTKLIK_OTPRAVLEN_RABOTODATELYU)) 500,
   WaitVisible (First (ByText OTKLIK_UZHE_OTPRAVLEN)) 500,
   WaitVisible (First (ByText VY_OTKLIKNULIS)) 500,
   WaitVisible (First (ByText OTKLIK_OTPRAVLEN)) 500,
   PageTitle,
   Count (Loc (Title VACANCY_TITLE_CLASS)),
   Count (Loc (Title VACANCY_TITLE_VIEW_QA)),
   Count (Loc (Title VACANCY_TITLE_QA)),
   Count (Loc (Title VACANCY_TITLE_H1)),
   HumanPause DefaultPause,
   Goto ''https://hh.ru/vacancy/1'' 30000,
   SetDefaultTimeout 30000,
   OnConsole,
   NewPage])"
proof -
  have "require_cover_letter strict_config"
    by (simp add: strict_config_def)
  moreover have "add_cover_letter_and_submit entry_site strict_config (\<lambda>s. s) letter40 [] =
  (Inr False,
  [Screenshot ''no_cover_letter'', HumanPause (PauseBetween 400 800),
   WaitVisible (First (First (Loc (Cover COVER_LETTER_TEXTAREA_GENERIC)))) 900,
   WaitVisible (First (First (Loc (Cover COVER_LETTER_TEXTAREA_PLACEHOLDER)))) 900,
   WaitVisible (First (First (Loc (Cover COVER_LETTER_TEXTAREA)))) 900,
   HumanPause (PauseBetween 400 800),
   WaitVisible (First (First (Loc (Cover COVER_LETTER_TEXTAREA_GENERIC)))) 900,
   WaitVisible (First (First (Loc (Cover COVER_LETTER_TEXTAREA_PLACEHOLDER)))) 900,
   WaitVisible (First (First (Loc (Cover COVER_LETTER_TEXTAREA)))) 900,
   HumanPause (PauseBetween 400 800),
   WaitVisible (First (First (Loc (Cover COVER_LETTER_TEXTAREA_GENERIC)))) 900,
   WaitVisible (First (First (Loc (Cover COVER_LETTER_TEXTAREA_PLACEHOLDER)))) 900,
   WaitVisible (First (First (Loc (Cover COVER_LETTER_TEXTAREA)))) 900,
   WaitVisible (First (Loc (Cover COVER_LETTER_TOGGLE))) 800,
   WaitVisible (First (ByText DOBAVIT_SOPROVODITELNOE)) 800,
   WaitVisible (First (ByRoleButton DOBAVIT_SOPROVODITELNOE)) 800])"
    by (simp add: add_cover_letter_and_submit_def fill_cover_letter_with_verification_def
        togglers_def textarea_selectors_def try_textarea_def fill_attempts_3 Let_def
        entry_site_def strict_config_def prog_defs)
  moreover have "apply_to_vacancy entry_site strict_config (\<lambda>s. s) ''https://hh.ru/vacancy/1''
                   letter40 [] =
  (Inl NameError,
  [ClosePage,
   WaitVisible (First (ByRoleButton OTKLIKNUTSYA)) 900,
   WaitVisible (First (ByRoleButton OTKLIKNUTSYA)) 900,
   WaitVisible (First (ByText OTKLIK_OTPRAVLEN_RABOTODATELYU)) 500,
   WaitVisible (First (ByText OTKLIK_UZHE_OTPRAVLEN)) 500,
   WaitVisible (First (ByText VY_OTKLIKNULIS)) 500,
   WaitVisible (First (ByText OTKLIK_OTPRAVLEN)) 500,
   PageTitle,
   Count (Loc (Title VACANCY_TITLE_CLASS)),
   Count (Loc (Title VACANCY_TITLE_VIEW_QA)),
   Count (Loc (Title VACANCY_TITLE_QA)),
   Count (Loc (Title VACANCY_TITLE_H1)),
   HumanPause DefaultPause,
   Goto ''https://hh.ru/vacancy/1'' 30000,
   SetDefaultTimeout 30000,
   OnConsole,
   NewPage])"
    by (simp add: apply_to_vacancy_def apply_on_page_def listing_body_def on_error_def
        close_page_def extract_title_def title_selectors_def read_title_def
        already_applied_def ALREADY_APPLIED_TEXT_def get_apply_button_def apply_candidates_def
        use_ai_cover_letter_def strip_def entry_site_def prog_defs)
  ultimately show ?thesis
    by (intro conjI)
qed

text \<open>
  C8 (the code departs from the claim). The first submit candidate of \<open>disabled_site\<close>
  is visible and carries the attribute \<^verbatim>\<open>disabled\<close> with the empty value.
  \<open>find_enabled_submit\<close> selects it: \<^verbatim>\<open>not disabled\<close> is true of the empty string.
\<close>

theorem disabled_button_selected:
  "attr_reply disabled_site [WaitVisible (First (First (Loc (Submit SUBMIT_BUTTON)))) 900]
     (GetAttribute (First (Loc (Submit SUBMIT_BUTTON))) ''disabled'') = Some []
   \<and> find_enabled_submit disabled_site [] =
   (Inr (Some (First (Loc (Submit SUBMIT_BUTTON)))),
    [GetAttribute (First (Loc (Submit SUBMIT_BUTTON))) ''aria-disabled'',
     GetAttribute (First (Loc (Submit SUBMIT_BUTTON))) ''disabled'',
     WaitVisible (First (First (Loc (Submit SUBMIT_BUTTON)))) 900])"
  by (simp add: find_enabled_submit_def submit_candidates_def submit_enabled_def falsy_def
      disabled_site_def prog_defs)

section \<open>Reasoning about histories\<close>

lemma bind_as_try_then: "bind m f = try_then m raise f"
  by (rule ext) (simp add: bind_def try_then_def raise_def split: prod.splits sum.splits)

lemma try_except_as_try_then: "try_except m handler = try_then m handler ret"
  by (rule ext) (simp add: try_except_def try_then_def ret_def split: prod.splits sum.splits)

subsection \<open>What a program adds to the history\<close>

lemma emits_mono: "emits P m \<Longrightarrow> (\<And>a. P a \<Longrightarrow> Q a) \<Longrightarrow> emits Q m"
  unfolding emits_def list_all_iff by blast

lemma emits_ret: "emits P (ret x)"
  by (simp add: emits_def ret_def)

lemma emits_raise: "emits P (raise e)"
  by (simp add: emits_def raise_def)

lemma emits_ask: "P a \<Longrightarrow> emits P (ask b reply a)"
proof -
  assume "P a"
  then have "\<And>h. snd (ask b reply a h) = [a] @ h \<and> list_all P [a]"
    by (simp add: ask_def split: option.splits)
  then show ?thesis unfolding emits_def by blast
qed

lemma emits_perform: "P a \<Longrightarrow> emits P (perform b a)"
  unfolding perform_def by (rule emits_ask)

lemma emits_pause: "P (HumanPause p) \<Longrightarrow> emits P (human_pause p)"
proof -
  assume "P (HumanPause p)"
  then have "\<And>h. snd (human_pause p h) = [HumanPause p] @ h \<and> list_all P [HumanPause p]"
    by (simp add: human_pause_def)
  then show ?thesis unfolding emits_def by blast
qed

lemma emits_try_then:
  assumes "emits P m" and "\<And>e. emits P (handler e)" and "\<And>x. emits P (rest x)"
  shows "emits P (try_then m handler rest)"
  unfolding emits_def
proof
  fix h
  obtain r h1 where mh: "m h = (r, h1)" by (cases "m h")
  obtain evs1 where e1: "h1 = evs1 @ h" "list_all P evs1"
    using assms(1) mh unfolding emits_def by (metis snd_conv)
  show "\<exists>evs. snd (try_then m handler rest h) = evs @ h \<and> list_all P evs"
  proof (cases r)
    case (Inl e)
    obtain evs2 where "snd (handler e h1) = evs2 @ h1" "list_all P evs2"
      using assms(2) unfolding emits_def by blast
    then have "snd (try_then m handler rest h) = (evs2 @ evs1) @ h \<and> list_all P (evs2 @ evs1)"
      using mh Inl e1 by (simp add: try_then_def)
    then show ?thesis by blast
  next
    case (Inr x)
    obtain evs2 where "snd (rest x h1) = evs2 @ h1" "list_all P evs2"
      using assms(3) unfolding emits_def by blast
    then have "snd (try_then m handler rest h) = (evs2 @ evs1) @ h \<and> list_all P (evs2 @ evs1)"
      using mh Inr e1 by (simp add: try_then_def)
    then show ?thesis by blast
  qed
qed

lemma emits_bind: "emits P m \<Longrightarrow> (\<And>x. emits P (f x)) \<Longrightarrow> emits P (bind m f)"
  unfolding bind_as_try_then by (rule emits_try_then) (simp_all add: emits_raise)

lemma emits_try_except:
  "emits P m \<Longrightarrow> (\<And>e. emits P (handler e)) \<Longrightarrow> emits P (try_except m handler)"
  unfolding try_except_as_try_then by (rule emits_try_then) (simp_all add: emits_ret)

lemma emits_try_finally:
  assumes "emits P m" and "emits P fin"
  shows "emits P (try_finally m fin)"
  unfolding emits_def
proof
  fix h
  obtain r h1 where mh: "m h = (r, h1)" by (cases "m h")
  obtain evs1 where e1: "h1 = evs1 @ h" "list_all P evs1"
    using assms(1) mh unfolding emits_def by (metis snd_conv)
  obtain evs2 where e2: "snd (fin h1) = evs2 @ h1" "list_all P evs2"
    using assms(2) unfolding emits_def by blast
  have "snd (try_finally m fin h) = (evs2 @ evs1) @ h \<and> list_all P (evs2 @ evs1)"
    using mh e1 e2 by (cases "fin h1") (auto simp: try_finally_def split: sum.splits)
  then show "\<exists>evs. snd (try_finally m fin h) = evs @ h \<and> list_all P evs" by blast
qed

lemma emits_if: "emits P m \<Longrightarrow> emits P n \<Longrightarrow> emits P (if c then m else n)"
  by simp

lemma emits_case_option:
  "emits P m \<Longrightarrow> (\<And>x. emits P (f x)) \<Longrightarrow> emits P (case opt of None \<Rightarrow> m | Some x \<Rightarrow> f x)"
  by (cases opt) simp_all

lemma emits_is_visible: "P (WaitVisible (First l) t) \<Longrightarrow> emits P (is_visible b l t)"
  unfolding is_visible_def
  by (intro emits_try_except emits_bind emits_perform emits_ret)

lemma emits_make_shot: "P (Screenshot tag) \<Longrightarrow> emits P (make_shot b page_open tag)"
  unfolding make_shot_def
  by (intro emits_try_except emits_if emits_perform emits_raise emits_ret)

lemmas emits_intros =
  emits_ret emits_raise emits_bind emits_try_except emits_try_then emits_try_finally
  emits_if emits_case_option emits_ask emits_perform emits_pause emits_is_visible
  emits_make_shot

subsection \<open>Programs that raise nothing\<close>

lemma total_ret: "total (ret x)"
  by (simp add: total_def ret_def)

lemma total_pause: "total (human_pause p)"
  by (simp add: total_def human_pause_def)

lemma total_try_then:
  assumes "\<And>e. total (handler e)" and "\<And>x. total (rest x)"
  shows "total (try_then m handler rest)"
  unfolding total_def
proof
  fix h
  obtain r h1 where mh: "m h = (r, h1)" by (cases "m h")
  show "\<exists>x h'. try_then m handler rest h = (Inr x, h')"
    using assms mh unfolding total_def by (cases r) (simp_all add: try_then_def)
qed

lemma total_try_except: "(\<And>e. total (handler e)) \<Longrightarrow> total (try_except m handler)"
  unfolding try_except_as_try_then by (rule total_try_then) (simp_all add: total_ret)

lemma total_bind:
  assumes "total m" and "\<And>x. total (f x)"
  shows "total (bind m f)"
  unfolding total_def
proof
  fix h
  obtain x h1 where "m h = (Inr x, h1)"
    using assms(1) unfolding total_def by blast
  then show "\<exists>y h'. bind m f h = (Inr y, h')"
    using assms(2) unfolding total_def by (simp add: bind_def)
qed

lemma total_if: "total m \<Longrightarrow> total n \<Longrightarrow> total (if c then m else n)"
  by simp

lemma total_case_option:
  "total m \<Longrightarrow> (\<And>x. total (f x)) \<Longrightarrow> total (case opt of None \<Rightarrow> m | Some x \<Rightarrow> f x)"
  by (cases opt) simp_all

lemma total_is_visible: "total (is_visible b l t)"
  unfolding is_visible_def by (intro total_try_except total_ret)

lemma total_make_shot: "total (make_shot b page_open tag)"
  unfolding make_shot_def by (intro total_try_except total_ret)

lemmas total_intros =
  total_ret total_pause total_bind total_try_except total_if total_case_option
  total_is_visible total_make_shot

lemma totalD: "total m \<Longrightarrow> \<exists>x h'. m h = (Inr x, h')"
  unfolding total_def by blast

subsection \<open>The helpers of the client\<close>

lemma total_first_visible_candidate: "total (first_visible_candidate b cs)"
  by (induction cs) (auto intro!: total_intros)

lemma total_get_apply_button: "total (get_apply_button b)"
  unfolding get_apply_button_def by (rule total_first_visible_candidate)

lemma total_confirmation_visible: "total (confirmation_visible b txts)"
  by (induction txts) (auto intro!: total_intros)

lemma total_already_applied: "total (already_applied b)"
  unfolding already_applied_def
  by (intro total_intros total_confirmation_visible total_get_apply_button)

lemma total_read_title: "total (read_title b sel)"
  unfolding read_title_def by (intro total_intros)

lemma total_find_title: "total (find_title b sels)"
  by (induction sels) (auto intro!: total_intros total_read_title)

lemma total_extract_title: "total (extract_title b)"
  unfolding extract_title_def by (intro total_intros total_find_title)

lemma emits_first_visible_candidate:
  "(\<And>c. c \<in> set cs \<Longrightarrow> P (WaitVisible (First c) 900)) \<Longrightarrow>
   emits P (first_visible_candidate b cs)"
  by (induction cs) (auto intro!: emits_intros)

lemma emits_get_apply_button:
  assumes "\<And>l t. locator_concern l = EntryPoint \<Longrightarrow> P (WaitVisible l t)"
  shows "emits P (get_apply_button b)"
  unfolding get_apply_button_def
  by (rule emits_first_visible_candidate) (auto simp: apply_candidates_def intro!: assms)

lemma emits_confirmation_visible:
  "(\<And>t. t \<in> set txts \<Longrightarrow> P (WaitVisible (First (ByText t)) 500)) \<Longrightarrow>
   emits P (confirmation_visible b txts)"
  by (induction txts) (auto intro!: emits_intros)

lemma emits_already_applied:
  assumes "\<And>l t. locator_concern l = EntryPoint \<or> locator_concern l = Confirmation
             \<Longrightarrow> P (WaitVisible l t)"
  shows "emits P (already_applied b)"
  unfolding already_applied_def
  by (intro emits_intros emits_confirmation_visible emits_get_apply_button)
     (auto simp: ALREADY_APPLIED_TEXT_def intro!: assms)

lemma emits_read_title:
  assumes "\<And>a. about TitleText a \<Longrightarrow> P a" and "selector_concern sel = TitleText"
  shows "emits P (read_title b sel)"
  unfolding read_title_def using assms(2)
  by (intro emits_intros) (auto simp: about_def intro!: assms(1))

lemma emits_find_title:
  assumes "\<And>a. about TitleText a \<Longrightarrow> P a"
  shows "(\<And>s. s \<in> set sels \<Longrightarrow> selector_concern s = TitleText) \<Longrightarrow> emits P (find_title b sels)"
  by (induction sels) (auto intro!: emits_intros emits_read_title assms)

lemma emits_extract_title:
  assumes "\<And>a. about TitleText a \<Longrightarrow> P a" and "P PageTitle"
  shows "emits P (extract_title b)"
  unfolding extract_title_def
  by (intro emits_intros emits_find_title assms) (auto simp: title_selectors_def)

section \<open>The already-applied short circuit\<close>


lemma not_form_probe:
  "locator_concern l = EntryPoint \<or> locator_concern l = Confirmation
   \<Longrightarrow> \<not> form_action (WaitVisible l t)"
  by (auto simp: form_action_def about_def)

lemma not_form_title: "about TitleText a \<Longrightarrow> \<not> form_action a"
  by (auto simp: form_action_def about_def)



section \<open>What each part of the form workflow calls\<close>

lemma emits_reveal_cover_letter:
  assumes "\<And>a. about CoverLetter a \<Longrightarrow> P a" and "\<And>p. P (HumanPause p)"
  shows "(\<And>t. t \<in> set ts \<Longrightarrow> locator_concern t = CoverLetter)
         \<Longrightarrow> emits P (reveal_cover_letter b ts)"
  by (induction ts) (auto simp: about_def intro!: emits_intros assms)

lemma emits_try_textarea:
  assumes "\<And>a. about CoverLetter a \<Longrightarrow> P a" and "\<And>p. P (HumanPause p)"
    and "selector_concern sel = CoverLetter"
  shows "emits P (try_textarea b c sel)"
  unfolding try_textarea_def Let_def using assms(3)
  by (intro emits_intros) (auto simp: about_def intro!: assms(1,2))

lemma emits_fill_strategies:
  assumes "\<And>a. about CoverLetter a \<Longrightarrow> P a" and "\<And>p. P (HumanPause p)"
  shows "(\<And>s. s \<in> set sels \<Longrightarrow> selector_concern s = CoverLetter)
         \<Longrightarrow> emits P (fill_strategies b c sels)"
  by (induction sels) (auto intro!: emits_intros emits_try_textarea assms)

lemma emits_fill_attempts:
  assumes "\<And>a. about CoverLetter a \<Longrightarrow> P a" and "\<And>p. P (HumanPause p)"
  shows "emits P (fill_attempts b c n)"
proof -
  have "emits P (fill_strategies b c textarea_selectors)"
    by (rule emits_fill_strategies) (auto simp: textarea_selectors_def intro!: assms)
  then show ?thesis
    by (induction n) (auto intro!: emits_intros assms)
qed

lemma emits_fill_cover_letter:
  assumes "\<And>a. about CoverLetter a \<Longrightarrow> P a" and "\<And>p. P (HumanPause p)"
  shows "emits P (fill_cover_letter_with_verification b c)"
  unfolding fill_cover_letter_with_verification_def
  by (intro emits_intros emits_reveal_cover_letter emits_fill_attempts assms)
     (auto simp: togglers_def)

lemma emits_activate_resume:
  assumes "\<And>a. about ResumeChoice a \<Longrightarrow> P a"
    and "locator_concern item = ResumeChoice" and "locator_concern target = ResumeChoice"
  shows "emits P (activate_resume b item target)"
  unfolding activate_resume_def Let_def using assms(2,3)
  by (intro emits_intros) (auto simp: about_def intro!: assms(1))

lemma emits_select_textual:
  assumes "\<And>a. about ResumeChoice a \<Longrightarrow> P a"
  shows "(\<And>s. s \<in> set sels \<Longrightarrow> selector_concern s = ResumeChoice)
         \<Longrightarrow> emits P (select_textual b sels)"
  by (induction sels)
     (auto simp: about_def intro!: emits_intros emits_activate_resume assms)

lemma emits_select_item:
  assumes "\<And>a. about ResumeChoice a \<Longrightarrow> P a" and "locator_concern item = ResumeChoice"
  shows "emits P (select_item b lower msk item)"
  unfolding select_item_def using assms(2)
  by (intro emits_intros emits_activate_resume) (auto simp: about_def intro!: assms(1))

lemma emits_select_items:
  assumes "\<And>a. about ResumeChoice a \<Longrightarrow> P a" and "locator_concern items = ResumeChoice"
  shows "emits P (select_items b lower msk items ixs)"
  using assms(2)
  by (induction ixs) (auto intro!: emits_intros emits_select_item assms(1))

lemma emits_select_containers:
  assumes "\<And>a. about ResumeChoice a \<Longrightarrow> P a"
  shows "(\<And>s. s \<in> set sels \<Longrightarrow> selector_concern s = ResumeChoice)
         \<Longrightarrow> emits P (select_containers b lower msk sels)"
  by (induction sels)
     (auto simp: about_def intro!: emits_intros emits_select_items assms)

lemma emits_select_specific_resume:
  assumes "\<And>a. about ResumeChoice a \<Longrightarrow> P a"
  shows "emits P (select_specific_resume b lower msk)"
  unfolding select_specific_resume_def
  by (intro emits_intros emits_select_textual emits_select_containers assms)
     (auto simp: resume_textual_def resume_containers_def)

lemma emits_select_any_from:
  assumes "\<And>a. about ResumeChoice a \<Longrightarrow> P a"
  shows "(\<And>s. s \<in> set sels \<Longrightarrow> selector_concern s = ResumeChoice)
         \<Longrightarrow> emits P (select_any_from b lower sels)"
  by (induction sels) (auto simp: about_def intro!: emits_intros assms)

lemma emits_select_any_resume:
  assumes "\<And>a. about ResumeChoice a \<Longrightarrow> P a"
  shows "emits P (select_any_resume_if_needed b lower)"
  unfolding select_any_resume_if_needed_def
  by (rule emits_select_any_from) (auto simp: resume_fallbacks_def intro!: assms)

lemma emits_check_box:
  assumes "\<And>a. about ConsentBox a \<Longrightarrow> \<not> is_click a \<Longrightarrow> P a"
    and "locator_concern box = ConsentBox"
  shows "emits P (check_box b box)"
  unfolding check_box_def using assms(2)
  by (intro emits_intros) (auto simp: about_def intro!: assms(1))

lemma emits_check_boxes:
  assumes "\<And>a. about ConsentBox a \<Longrightarrow> \<not> is_click a \<Longrightarrow> P a"
    and "locator_concern boxes = ConsentBox"
  shows "emits P (check_boxes b boxes ixs)"
  using assms(2)
  by (induction ixs) (auto intro!: emits_intros emits_check_box assms(1))

lemma emits_check_consents_from:
  assumes "\<And>a. about ConsentBox a \<Longrightarrow> \<not> is_click a \<Longrightarrow> P a"
  shows "(\<And>s. s \<in> set sels \<Longrightarrow> selector_concern s = ConsentBox)
         \<Longrightarrow> emits P (check_consents_from b sels)"
  by (induction sels)
     (auto simp: about_def intro!: emits_intros emits_check_boxes assms)

lemma emits_check_consents:
  assumes "\<And>a. about ConsentBox a \<Longrightarrow> \<not> is_click a \<Longrightarrow> P a"
  shows "emits P (check_consents_if_needed b)"
  unfolding check_consents_if_needed_def
  by (intro emits_intros emits_check_consents_from assms)
     (auto simp: consent_candidates_def)

lemma total_try_textarea: "total (try_textarea b c sel)"
  unfolding try_textarea_def Let_def by (intro total_intros)

lemma total_fill_strategies: "total (fill_strategies b c sels)"
  by (induction sels) (auto intro!: total_intros total_try_textarea)

lemma total_fill_attempts: "total (fill_attempts b c n)"
  by (induction n) (auto intro!: total_intros total_fill_strategies)

lemma total_fill_cover_letter: "total (fill_cover_letter_with_verification b c)"
  unfolding fill_cover_letter_with_verification_def
  by (intro total_intros total_fill_attempts)

section \<open>A required cover letter that cannot be filled\<close>

lemma try_textarea_hidden:
  assumes "raises b h (WaitVisible (First (First (Loc sel))) 900) \<noteq> None"
  shows "try_textarea b c sel h = (Inr False, WaitVisible (First (First (Loc sel))) 900 # h)"
  using assms
  by (auto simp: try_textarea_def Let_def is_visible_def try_except_def bind_def perform_def
      ask_def ret_def)

lemma fill_strategies_hidden:
  assumes "\<And>h sel. sel \<in> set sels \<Longrightarrow> raises b h (WaitVisible (First (First (Loc sel))) 900) \<noteq> None"
  shows "fst (fill_strategies b c sels h) = Inr False"
  using assms
proof (induction sels arbitrary: h)
  case Nil
  then show ?case by (simp add: ret_def)
next
  case (Cons sel sels)
  have "try_textarea b c sel h = (Inr False, WaitVisible (First (First (Loc sel))) 900 # h)"
    by (rule try_textarea_hidden) (simp add: Cons.prems)
  then show ?case
    using Cons.IH [of "WaitVisible (First (First (Loc sel))) 900 # h"] Cons.prems
    by (simp add: bind_def)
qed

lemma fill_attempts_hidden:
  assumes "\<And>h sel. sel \<in> set textarea_selectors
             \<Longrightarrow> raises b h (WaitVisible (First (First (Loc sel))) 900) \<noteq> None"
  shows "fst (fill_attempts b c n h) = Inr False"
proof (induction n arbitrary: h)
  case 0
  then show ?case by (simp add: ret_def)
next
  case (Suc n)
  obtain h1 where "fill_strategies b c textarea_selectors h = (Inr False, h1)"
    using fill_strategies_hidden [of textarea_selectors b c h] assms
    by (metis prod.collapse)
  then show ?case
    using Suc [of "HumanPause (PauseBetween 400 800) # h1"]
    by (simp add: bind_def human_pause_def)
qed

lemma fill_cover_letter_hidden:
  assumes "\<And>h sel. sel \<in> set textarea_selectors
             \<Longrightarrow> raises b h (WaitVisible (First (First (Loc sel))) 900) \<noteq> None"
  shows "fst (fill_cover_letter_with_verification b c h) = Inr False"
proof -
  obtain u h1 where "try_except (reveal_cover_letter b togglers) (\<lambda>e. ret ()) h = (Inr u, h1)"
    using totalD [OF total_try_except [of "\<lambda>e. ret ()"]] total_ret by metis
  then show ?thesis
    using fill_attempts_hidden [OF assms, of c 3 h1]
    by (simp add: fill_cover_letter_with_verification_def bind_def)
qed

text \<open>
  The form helper on its own. When the configuration requires a cover letter and no
  textarea strategy ever finds its textarea visible (the wait raises whenever it is
  made), \<open>add_cover_letter_and_submit\<close> returns False; its last call is the screenshot
  tagged \<open>no_cover_letter\<close>, and none of its calls is about a resume, a consent box or a
  submit control.
\<close>

theorem no_cover_letter_stops_form:
  assumes "require_cover_letter cfg"
    and "\<And>h sel. sel \<in> set textarea_selectors
           \<Longrightarrow> raises b h (WaitVisible (First (First (Loc sel))) 900) \<noteq> None"
  shows "\<exists>evs. add_cover_letter_and_submit b cfg lower cover_text h
                 = (Inr False, Screenshot ''no_cover_letter'' # evs @ h)
               \<and> list_all (\<lambda>a. \<not> about ResumeChoice a \<and> \<not> about ConsentBox a
                                 \<and> \<not> about SubmitControl a) evs"
proof -
  let ?quiet = "\<lambda>a. \<not> about ResumeChoice a \<and> \<not> about ConsentBox a \<and> \<not> about SubmitControl a"
  have "emits ?quiet (fill_cover_letter_with_verification b cover_text)"
    by (rule emits_fill_cover_letter) (auto simp: about_def)
  then obtain evs where e: "snd (fill_cover_letter_with_verification b cover_text h) = evs @ h"
      "list_all ?quiet evs"
    unfolding emits_def by blast
  have "fst (fill_cover_letter_with_verification b cover_text h) = Inr False"
    using assms(2) by (rule fill_cover_letter_hidden)
  with e(1) have "fill_cover_letter_with_verification b cover_text h = (Inr False, evs @ h)"
    by (metis prod.collapse)
  then have "add_cover_letter_and_submit b cfg lower cover_text h
             = (Inr False, Screenshot ''no_cover_letter'' # evs @ h)"
    using assms(1)
    by (simp add: add_cover_letter_and_submit_def bind_def make_shot_def try_except_def
        perform_def ask_def ret_def split: option.splits)
  with e(2) show ?thesis by auto
qed

theorem no_cover_letter_stops_form_witness:
  "require_cover_letter strict_config
   \<and> (\<exists>evs. add_cover_letter_and_submit blank_site strict_config (\<lambda>s. s) letter40 []
              = (Inr False, Screenshot ''no_cover_letter'' # evs)
            \<and> list_all (\<lambda>a. \<not> about ResumeChoice a \<and> \<not> about ConsentBox a
                              \<and> \<not> about SubmitControl a) evs)"
proof -
  have c: "require_cover_letter strict_config"
    by (simp add: strict_config_def)
  have v: "\<And>h sel. sel \<in> set textarea_selectors
            \<Longrightarrow> raises blank_site h (WaitVisible (First (First (Loc sel))) 900) \<noteq> None"
    by (simp add: blank_site_def)
  from no_cover_letter_stops_form [OF c v, of "\<lambda>s. s" letter40 "[]"]
  show ?thesis using c by auto
qed

section \<open>Filling and verifying the cover letter\<close>

lemma accepted_in_append:
  "accepted_in b c (evs2 @ evs1) h = (accepted_in b c evs2 (evs1 @ h) \<or> accepted_in b c evs1 h)"
  by (induction evs2) auto

lemma not_accepted_in: "list_all (\<lambda>a. \<not> is_readback a) evs \<Longrightarrow> \<not> accepted_in b c evs h"
  by (induction evs) auto

lemma count_where_append [simp]:
  "count_where P (xs @ ys) = count_where P xs + count_where P ys"
  by (simp add: count_where_def)

lemma count_where_Nil [simp]: "count_where P [] = 0"
  by (simp add: count_where_def)

lemma count_where_Cons [simp]:
  "count_where P (x # xs) = (if P x then Suc (count_where P xs) else count_where P xs)"
  by (simp add: count_where_def)

lemma count_where_none: "list_all (\<lambda>a. \<not> P a) evs \<Longrightarrow> count_where P evs = 0"
  by (induction evs) auto

lemma fill_run_ret: "fill_run b c 0 (ret False)"
  by (simp add: fill_run_def ret_def)

lemma fill_run_seq:
  assumes "fill_run b c k1 m" and "fill_run b c k2 n"
  shows "fill_run b c (k1 + k2) (bind m (\<lambda>ok. if ok then ret True else n))"
  unfolding fill_run_def
proof
  fix h
  obtain evs1 where m: "m h = (Inr (accepted_in b c evs1 h), evs1 @ h)"
    and m': "if accepted_in b c evs1 h
             then (\<exists>ta rest. evs1 = InputValue ta # rest \<and> \<not> accepted_in b c rest h)
                  \<and> count_where attempt_start evs1 \<le> k1
             else count_where attempt_start evs1 = k1"
    using assms(1) unfolding fill_run_def by blast
  let ?goal = "\<lambda>evs. bind m (\<lambda>ok. if ok then ret True else n) h
                       = (Inr (accepted_in b c evs h), evs @ h)
      \<and> (if accepted_in b c evs h
         then (\<exists>ta rest. evs = InputValue ta # rest \<and> \<not> accepted_in b c rest h)
              \<and> count_where attempt_start evs \<le> k1 + k2
         else count_where attempt_start evs = k1 + k2)"
  show "\<exists>evs. ?goal evs"
  proof (cases "accepted_in b c evs1 h")
    case True
    then have "?goal evs1"
      using m m' by (auto simp: bind_def ret_def)
    then show ?thesis ..
  next
    case False
    obtain evs2 where n: "n (evs1 @ h) = (Inr (accepted_in b c evs2 (evs1 @ h)), evs2 @ evs1 @ h)"
      and n': "if accepted_in b c evs2 (evs1 @ h)
               then (\<exists>ta rest. evs2 = InputValue ta # rest \<and> \<not> accepted_in b c rest (evs1 @ h))
                    \<and> count_where attempt_start evs2 \<le> k2
               else count_where attempt_start evs2 = k2"
      using assms(2) unfolding fill_run_def by blast
    have run: "bind m (\<lambda>ok. if ok then ret True else n) h
               = (Inr (accepted_in b c (evs2 @ evs1) h), (evs2 @ evs1) @ h)"
      using m n False by (simp add: bind_def accepted_in_append)
    have k1: "count_where attempt_start evs1 = k1"
      using m' False by simp
    have "?goal (evs2 @ evs1)"
    proof (cases "accepted_in b c evs2 (evs1 @ h)")
      case True
      then obtain ta rest where r: "evs2 = InputValue ta # rest"
          "\<not> accepted_in b c rest (evs1 @ h)" "count_where attempt_start evs2 \<le> k2"
        using n' by auto
      have "\<not> accepted_in b c (rest @ evs1) h"
        using r(2) False by (simp add: accepted_in_append)
      moreover have "evs2 @ evs1 = InputValue ta # (rest @ evs1)"
        using r(1) by simp
      ultimately have "\<exists>ta rest'. evs2 @ evs1 = InputValue ta # rest'
                                  \<and> \<not> accepted_in b c rest' h"
        by blast
      moreover have "accepted_in b c (evs2 @ evs1) h"
        using True by (simp add: accepted_in_append)
      moreover have "count_where attempt_start (evs2 @ evs1) \<le> k1 + k2"
        using r(3) k1 by simp
      ultimately show ?thesis using run by simp
    next
      case no: False
      then have "count_where attempt_start evs2 = k2"
        using n' by simp
      moreover have "\<not> accepted_in b c (evs2 @ evs1) h"
        using no False by (simp add: accepted_in_append)
      ultimately show ?thesis using run k1 by simp
    qed
    then show ?thesis ..
  qed
qed

text \<open>A prefix that raises nothing, reads nothing back and starts no pass changes nothing.\<close>

lemma fill_run_after:
  assumes "total m0" and "emits (\<lambda>a. \<not> is_readback a \<and> \<not> attempt_start a) m0"
    and "fill_run b c k n"
  shows "fill_run b c k (bind m0 (\<lambda>u. n))"
  unfolding fill_run_def
proof
  fix h
  obtain u h0 where m0: "m0 h = (Inr u, h0)"
    using totalD [OF assms(1)] by blast
  obtain evs0 where e0: "h0 = evs0 @ h" "list_all (\<lambda>a. \<not> is_readback a \<and> \<not> attempt_start a) evs0"
    using assms(2) m0 unfolding emits_def by (metis snd_conv)
  have q: "\<not> accepted_in b c evs0 h" "count_where attempt_start evs0 = 0"
    using e0(2) by (auto intro!: not_accepted_in count_where_none simp: list_all_iff)
  obtain evs where n: "n h0 = (Inr (accepted_in b c evs h0), evs @ h0)"
    and n': "if accepted_in b c evs h0
             then (\<exists>ta rest. evs = InputValue ta # rest \<and> \<not> accepted_in b c rest h0)
                  \<and> count_where attempt_start evs \<le> k
             else count_where attempt_start evs = k"
    using assms(3) unfolding fill_run_def by blast
  have acc: "accepted_in b c (evs @ evs0) h = accepted_in b c evs h0"
    using q(1) e0(1) by (simp add: accepted_in_append)
  have run: "bind m0 (\<lambda>u. n) h = (Inr (accepted_in b c (evs @ evs0) h), (evs @ evs0) @ h)"
    using m0 n e0(1) acc by (simp add: bind_def)
  have "if accepted_in b c (evs @ evs0) h
        then (\<exists>ta rest. evs @ evs0 = InputValue ta # rest \<and> \<not> accepted_in b c rest h)
             \<and> count_where attempt_start (evs @ evs0) \<le> k
        else count_where attempt_start (evs @ evs0) = k"
  proof (cases "accepted_in b c evs h0")
    case True
    then obtain ta rest where r: "evs = InputValue ta # rest" "\<not> accepted_in b c rest h0"
        "count_where attempt_start evs \<le> k"
      using n' by auto
    have "\<not> accepted_in b c (rest @ evs0) h"
      using r(2) q(1) e0(1) by (simp add: accepted_in_append)
    moreover have "evs @ evs0 = InputValue ta # (rest @ evs0)"
      using r(1) by simp
    ultimately have "\<exists>ta rest'. evs @ evs0 = InputValue ta # rest' \<and> \<not> accepted_in b c rest' h"
      by blast
    then show ?thesis using True acc r(3) q(2) by simp
  next
    case False
    then show ?thesis using n' acc q(2) by simp
  qed
  with run show "\<exists>evs. bind m0 (\<lambda>u. n) h = (Inr (accepted_in b c evs h), evs @ h)
      \<and> (if accepted_in b c evs h
         then (\<exists>ta rest. evs = InputValue ta # rest \<and> \<not> accepted_in b c rest h)
              \<and> count_where attempt_start evs \<le> k
         else count_where attempt_start evs = k)"
    by blast
qed

text \<open>One strategy: every way through the try block.\<close>

lemma fill_run_try_textarea:
  "fill_run b c (if sel = Cover COVER_LETTER_TEXTAREA then 1 else 0) (try_textarea b c sel)"
  unfolding fill_run_def
proof
  fix h
  let ?ta = "First (Loc sel)"
  let ?h1 = "WaitVisible (First ?ta) 900 # h"
  let ?h2 = "Click ?ta False # ?h1"
  let ?h3 = "KeyboardPress ''Control+A'' # ?h2"
  let ?h4 = "Fill ?ta c # ?h3"
  let ?h5 = "HumanPause (PauseBetween 200 400) # ?h4"
  let ?k = "if sel = Cover COVER_LETTER_TEXTAREA then 1 else (0::nat)"
  let ?goal = "\<lambda>evs. try_textarea b c sel h = (Inr (accepted_in b c evs h), evs @ h)
      \<and> (if accepted_in b c evs h
         then (\<exists>ta rest. evs = InputValue ta # rest \<and> \<not> accepted_in b c rest h)
              \<and> count_where attempt_start evs \<le> ?k
         else count_where attempt_start evs = ?k)"
  have unfold: "try_textarea b c sel h =
    (case raises b h (WaitVisible (First ?ta) 900) of
       Some e \<Rightarrow> (Inr False, ?h1)
     | None \<Rightarrow>
      (case raises b ?h1 (Click ?ta False) of
         Some e \<Rightarrow> (Inr False, ?h2)
       | None \<Rightarrow>
        (case raises b ?h2 (KeyboardPress ''Control+A'') of
           Some e \<Rightarrow> (Inr False, ?h3)
         | None \<Rightarrow>
          (case raises b ?h3 (Fill ?ta c) of
             Some e \<Rightarrow> (Inr False, ?h4)
           | None \<Rightarrow>
            (case raises b ?h5 (InputValue ?ta) of
               Some e \<Rightarrow> (Inr False, InputValue ?ta # ?h5)
             | None \<Rightarrow> (Inr (readback_ok c (text_reply b ?h5 (InputValue ?ta))),
                          InputValue ?ta # ?h5))))))"
    by (simp add: try_textarea_def Let_def is_visible_def try_except_def bind_def perform_def
        ask_def ret_def human_pause_def split: option.splits)
  consider (hidden) "raises b h (WaitVisible (First ?ta) 900) \<noteq> None"
    | (click) "raises b h (WaitVisible (First ?ta) 900) = None"
        "raises b ?h1 (Click ?ta False) \<noteq> None"
    | (press) "raises b h (WaitVisible (First ?ta) 900) = None"
        "raises b ?h1 (Click ?ta False) = None"
        "raises b ?h2 (KeyboardPress ''Control+A'') \<noteq> None"
    | (fill) "raises b h (WaitVisible (First ?ta) 900) = None"
        "raises b ?h1 (Click ?ta False) = None"
        "raises b ?h2 (KeyboardPress ''Control+A'') = None"
        "raises b ?h3 (Fill ?ta c) \<noteq> None"
    | (read) "raises b h (WaitVisible (First ?ta) 900) = None"
        "raises b ?h1 (Click ?ta False) = None"
        "raises b ?h2 (KeyboardPress ''Control+A'') = None"
        "raises b ?h3 (Fill ?ta c) = None"
    by blast
  note stages = this
  have finish: "\<exists>evs. ?goal evs"
    if "try_textarea b c sel h = (Inr ok, evs @ h)" and "accepted_in b c evs h = ok"
      and "ok \<Longrightarrow> \<exists>ta rest. evs = InputValue ta # rest \<and> \<not> accepted_in b c rest h"
      and "count_where attempt_start evs = ?k" for evs ok
  proof -
    have "?goal evs"
      using that by (cases ok) simp_all
    then show ?thesis ..
  qed
  from stages show "\<exists>evs. ?goal evs"
  proof cases
    case hidden
    show ?thesis
    proof (rule finish [of False "[WaitVisible (First ?ta) 900]"])
      show "try_textarea b c sel h = (Inr False, [WaitVisible (First ?ta) 900] @ h)"
        using hidden unfold by auto
    qed (simp_all add: attempt_start_def)
  next
    case click
    show ?thesis
    proof (rule finish [of False "[Click ?ta False, WaitVisible (First ?ta) 900]"])
      show "try_textarea b c sel h
            = (Inr False, [Click ?ta False, WaitVisible (First ?ta) 900] @ h)"
        using click unfold by auto
    qed (simp_all add: attempt_start_def)
  next
    case press
    show ?thesis
    proof (rule finish [of False "[KeyboardPress ''Control+A'', Click ?ta False,
                                   WaitVisible (First ?ta) 900]"])
      show "try_textarea b c sel h
            = (Inr False, [KeyboardPress ''Control+A'', Click ?ta False,
                           WaitVisible (First ?ta) 900] @ h)"
        using press unfold by auto
    qed (simp_all add: attempt_start_def)
  next
    case fill
    show ?thesis
    proof (rule finish [of False "[Fill ?ta c, KeyboardPress ''Control+A'', Click ?ta False,
                                   WaitVisible (First ?ta) 900]"])
      show "try_textarea b c sel h
            = (Inr False, [Fill ?ta c, KeyboardPress ''Control+A'', Click ?ta False,
                           WaitVisible (First ?ta) 900] @ h)"
        using fill unfold by auto
    qed (simp_all add: attempt_start_def)
  next
    case read
    let ?evs = "[InputValue ?ta, HumanPause (PauseBetween 200 400), Fill ?ta c,
                 KeyboardPress ''Control+A'', Click ?ta False, WaitVisible (First ?ta) 900]"
    let ?ok = "raises b ?h5 (InputValue ?ta) = None
               \<and> readback_ok c (text_reply b ?h5 (InputValue ?ta))"
    show ?thesis
    proof (rule finish [of ?ok ?evs])
      show "try_textarea b c sel h = (Inr ?ok, ?evs @ h)"
        using read unfold by (cases "raises b ?h5 (InputValue ?ta)") simp_all
    qed (simp_all add: attempt_start_def)
  qed
qed

lemma fill_run_strategies: "fill_run b c 1 (fill_strategies b c textarea_selectors)"
proof -
  have t1: "fill_run b c 1 (try_textarea b c (Cover COVER_LETTER_TEXTAREA))"
    using fill_run_try_textarea [of b c "Cover COVER_LETTER_TEXTAREA"] by simp
  have t2: "fill_run b c 0 (try_textarea b c (Cover COVER_LETTER_TEXTAREA_PLACEHOLDER))"
    using fill_run_try_textarea [of b c "Cover COVER_LETTER_TEXTAREA_PLACEHOLDER"] by simp
  have t3: "fill_run b c 0 (try_textarea b c (Cover COVER_LETTER_TEXTAREA_GENERIC))"
    using fill_run_try_textarea [of b c "Cover COVER_LETTER_TEXTAREA_GENERIC"] by simp
  have "fill_run b c (1 + (0 + (0 + 0))) (fill_strategies b c textarea_selectors)"
    unfolding textarea_selectors_def fill_strategies.simps
    by (rule fill_run_seq [OF t1 fill_run_seq [OF t2 fill_run_seq [OF t3 fill_run_ret]]])
  then show ?thesis by simp
qed

lemma fill_run_attempts: "fill_run b c n (fill_attempts b c n)"
proof (induction n)
  case 0
  then show ?case by (simp add: fill_run_ret)
next
  case (Suc n)
  have "fill_run b c n (bind (human_pause (PauseBetween 400 800)) (\<lambda>u. fill_attempts b c n))"
    by (rule fill_run_after [OF total_pause _ Suc])
       (simp add: emits_pause attempt_start_def)
  from fill_run_seq [OF fill_run_strategies this] show ?case by simp
qed

lemma fill_run_cover_letter: "fill_run b c 3 (fill_cover_letter_with_verification b c)"
  unfolding fill_cover_letter_with_verification_def
proof (rule fill_run_after [OF _ _ fill_run_attempts])
  show "total (try_except (reveal_cover_letter b togglers) (\<lambda>e. ret ()))"
    by (intro total_intros)
  have "emits (\<lambda>a. \<not> is_readback a \<and> \<not> attempt_start a) (reveal_cover_letter b ts)" for ts
    by (induction ts) (auto simp: attempt_start_def intro!: emits_intros)
  then show "emits (\<lambda>a. \<not> is_readback a \<and> \<not> attempt_start a)
               (try_except (reveal_cover_letter b togglers) (\<lambda>e. ret ()))"
    by (intro emits_intros)
qed



section \<open>Bounded retries\<close>

lemma adds_of_emits: "emits (\<lambda>a. \<not> P a) m \<Longrightarrow> adds P 0 m"
  unfolding emits_def adds_def by (metis count_where_none le_refl)

lemma adds_mono: "adds P k m \<Longrightarrow> k \<le> k' \<Longrightarrow> adds P k' m"
  unfolding adds_def by (meson le_trans)

lemma adds_ask: "adds P 1 (ask b reply a)"
proof -
  have "\<And>h. snd (ask b reply a h) = [a] @ h \<and> count_where P [a] \<le> 1"
    by (simp add: ask_def split: option.splits)
  then show ?thesis unfolding adds_def by blast
qed

lemma adds_perform: "adds P 1 (perform b a)"
  unfolding perform_def by (rule adds_ask)

lemma adds_try_then:
  assumes "adds P k m" and "\<And>e. adds P j (handler e)" and "\<And>x. adds P j (rest x)"
  shows "adds P (k + j) (try_then m handler rest)"
  unfolding adds_def
proof
  fix h
  obtain r h1 where mh: "m h = (r, h1)" by (cases "m h")
  obtain evs1 where e1: "h1 = evs1 @ h" "count_where P evs1 \<le> k"
    using assms(1) mh unfolding adds_def by (metis snd_conv)
  show "\<exists>evs. snd (try_then m handler rest h) = evs @ h \<and> count_where P evs \<le> k + j"
  proof (cases r)
    case (Inl e)
    obtain evs2 where "snd (handler e h1) = evs2 @ h1" "count_where P evs2 \<le> j"
      using assms(2) unfolding adds_def by blast
    then have "snd (try_then m handler rest h) = (evs2 @ evs1) @ h
               \<and> count_where P (evs2 @ evs1) \<le> k + j"
      using mh Inl e1 by (simp add: try_then_def)
    then show ?thesis by blast
  next
    case (Inr x)
    obtain evs2 where "snd (rest x h1) = evs2 @ h1" "count_where P evs2 \<le> j"
      using assms(3) unfolding adds_def by blast
    then have "snd (try_then m handler rest h) = (evs2 @ evs1) @ h
               \<and> count_where P (evs2 @ evs1) \<le> k + j"
      using mh Inr e1 by (simp add: try_then_def)
    then show ?thesis by blast
  qed
qed

lemma adds_ret: "adds P j (ret x)"
  by (simp add: adds_def ret_def)

lemma adds_raise: "adds P j (raise e)"
  by (simp add: adds_def raise_def)

lemma adds_bind: "adds P k m \<Longrightarrow> (\<And>x. adds P j (f x)) \<Longrightarrow> adds P (k + j) (bind m f)"
  unfolding bind_as_try_then by (rule adds_try_then) (simp_all add: adds_raise)

lemma adds_try_except:
  "adds P k m \<Longrightarrow> (\<And>e. adds P j (handler e)) \<Longrightarrow> adds P (k + j) (try_except m handler)"
  unfolding try_except_as_try_then by (rule adds_try_then) (simp_all add: adds_ret)

lemma adds_if: "adds P k m \<Longrightarrow> adds P k n \<Longrightarrow> adds P k (if c then m else n)"
  by simp

lemma adds_case_option:
  "adds P k m \<Longrightarrow> (\<And>x. adds P k (f x)) \<Longrightarrow> adds P k (case opt of None \<Rightarrow> m | Some x \<Rightarrow> f x)"
  by (cases opt) simp_all

lemma adds_quiet: "emits (\<lambda>a. \<not> P a) m \<Longrightarrow> adds P k m"
  by (rule adds_mono [OF adds_of_emits]) simp_all

lemma adds_is_visible: "adds P 1 (is_visible b l t)"
proof -
  have "adds P ((1 + 0) + 0) (is_visible b l t)"
    unfolding is_visible_def
    by (intro adds_try_except adds_bind adds_perform adds_ret)
  then show ?thesis by simp
qed

lemma emits_submit_enabled:
  assumes "P (WaitVisible (First btn) 900)" and "\<And>n. P (GetAttribute btn n)"
  shows "emits P (submit_enabled b btn)"
  unfolding submit_enabled_def
  by (intro emits_intros assms)

lemma emits_find_enabled_submit_from:
  assumes "\<And>s. s \<in> set sels \<Longrightarrow> P (WaitVisible (First (First (Loc s))) 900)"
    and "\<And>s n. s \<in> set sels \<Longrightarrow> P (GetAttribute (First (Loc s)) n)"
  shows "emits P (find_enabled_submit_from b sels)"
  using assms
  by (induction sels) (auto intro!: emits_intros emits_submit_enabled)

lemma emits_click_and_verify:
  assumes "P (Click btn force)" and "P (WaitForTimeout 1500)"
    and "\<And>l t. locator_concern l = EntryPoint \<or> locator_concern l = Confirmation
           \<Longrightarrow> P (WaitVisible l t)"
  shows "emits P (click_and_verify b btn force)"
  unfolding click_and_verify_def
  by (intro emits_intros emits_already_applied assms)

text \<open>A cycle probes the first submit candidate once.\<close>

lemma submit_cycle_starts: "adds cycle_start 1 (submit_cycle b)"
proof -
  let ?Q = "\<lambda>a. \<not> cycle_start a"
  have first: "adds cycle_start 1 (submit_enabled b (First (Loc (Submit SUBMIT_BUTTON))))"
  proof -
    have "adds cycle_start ((1 + 0) + 0) (submit_enabled b (First (Loc (Submit SUBMIT_BUTTON))))"
      unfolding submit_enabled_def
    proof (rule adds_try_except [OF adds_bind [OF adds_is_visible] adds_ret])
      fix v
      show "adds cycle_start 0
        (if v
         then bind (ask b attr_reply (GetAttribute (First (Loc (Submit SUBMIT_BUTTON))) ''disabled''))
                (\<lambda>disabled.
                   bind (ask b attr_reply
                           (GetAttribute (First (Loc (Submit SUBMIT_BUTTON))) ''aria-disabled''))
                     (\<lambda>aria. ret (falsy disabled \<and> (aria = None \<or> aria = Some (py ''false'')))))
         else ret False)"
        by (intro adds_quiet emits_intros) (simp_all add: cycle_start_def)
    qed
    then show ?thesis by simp
  qed
  have others: "emits ?Q (find_enabled_submit_from b
      [Submit SUBMIT_BUTTON_TEXT_1, Submit SUBMIT_BUTTON_TEXT_2, Submit SUBMIT_BUTTON_GENERIC_QA])"
    by (rule emits_find_enabled_submit_from) (auto simp: cycle_start_def)
  have step: "find_enabled_submit b =
      bind (submit_enabled b (First (Loc (Submit SUBMIT_BUTTON))))
        (\<lambda>ok. if ok then ret (Some (First (Loc (Submit SUBMIT_BUTTON))))
               else find_enabled_submit_from b
                      [Submit SUBMIT_BUTTON_TEXT_1, Submit SUBMIT_BUTTON_TEXT_2,
                       Submit SUBMIT_BUTTON_GENERIC_QA])"
    by (simp add: find_enabled_submit_def submit_candidates_def)
  have find: "adds cycle_start (1 + 0) (find_enabled_submit b)"
    unfolding step
    by (intro adds_bind first adds_if adds_ret adds_quiet others)
  have click: "emits ?Q (click_and_verify b btn True)" for btn
    by (rule emits_click_and_verify) (auto simp: cycle_start_def)
  have consents: "emits ?Q (check_consents_if_needed b)"
    by (rule emits_check_consents) (auto simp: cycle_start_def about_def)
  have "adds cycle_start ((1 + 0) + 0) (submit_cycle b)"
    unfolding submit_cycle_def
    by (intro adds_bind find adds_quiet emits_intros click consents)
       (simp_all add: cycle_start_def)
  then show ?thesis by simp
qed

text \<open>A cycle clicks the submit control at most twice.\<close>

lemma submit_cycle_clicks: "adds submit_click 2 (submit_cycle b)"
proof -
  let ?Q = "\<lambda>a. \<not> submit_click a"
  have find: "emits ?Q (find_enabled_submit b)"
    unfolding find_enabled_submit_def
    by (rule emits_find_enabled_submit_from) (simp_all add: submit_click_def)
  have verify: "emits ?Q (bind (perform b (WaitForTimeout 1500))
         (\<lambda>u. bind (already_applied b)
           (\<lambda>applied. if applied then ret True
                       else bind (perform b (WaitForTimeout 1500))
                              (\<lambda>u. already_applied b))))"
    by (intro emits_intros emits_already_applied) (simp_all add: submit_click_def)
  have click: "adds submit_click (1 + 0) (click_and_verify b btn True)" for btn
    unfolding click_and_verify_def
    by (intro adds_bind adds_perform adds_quiet verify)
  have consents: "emits ?Q (check_consents_if_needed b)"
    by (rule emits_check_consents) (auto simp: submit_click_def)
  have some_sum: "adds submit_click (0 + (0 + ((1 + 0) + (0 + ((1 + 0) + 0)))))
     (bind (try_except (perform b (ScrollIntoView btn)) (\<lambda>e. ret ()))
        (\<lambda>u. bind (human_pause DefaultPause)
          (\<lambda>u. try_except (click_and_verify b btn True)
                 (\<lambda>e. bind (human_pause (PauseBetween 2000 4000))
                   (\<lambda>u. try_except (click_and_verify b btn True) (\<lambda>e. ret False))))))" for btn
    by (intro adds_bind adds_try_except click adds_ret adds_quiet emits_intros)
       (simp_all add: submit_click_def)
  have none: "adds submit_click 2
     (bind (check_consents_if_needed b)
        (\<lambda>u. bind (human_pause (PauseBetween 1000 2000)) (\<lambda>u. ret False)))"
    by (intro adds_quiet emits_intros consents) (simp_all add: submit_click_def)
  have "adds submit_click (0 + 2) (submit_cycle b)"
    unfolding submit_cycle_def
    by (rule adds_bind [OF adds_quiet [OF find]
          adds_case_option [OF none adds_mono [OF some_sum]]]) simp
  then show ?thesis by (rule adds_mono) simp
qed

lemma adds_submit_loop:
  assumes "adds P k (submit_cycle b)"
  shows "adds P (n * k) (submit_loop b n)"
proof (induction n)
  case 0
  then show ?case by (simp add: adds_ret)
next
  case (Suc n)
  have "adds P (k + n * k) (submit_loop b (Suc n))"
    unfolding submit_loop.simps
    by (intro adds_bind assms adds_if adds_ret Suc)
  then show ?case by simp
qed

text \<open>What the workflow makes of a bound on the cycles: nothing else adds to the count.\<close>

lemma adds_add_cover_letter_and_submit:
  assumes "adds P k (submit_cycle b)"
    and "\<And>a. P a \<Longrightarrow> about SubmitControl a"
  shows "adds P (3 * k) (add_cover_letter_and_submit b cfg lower cover_text)"
proof -
  let ?Q = "\<lambda>a. \<not> P a"
  have other: "?Q a" if "\<not> about SubmitControl a" for a
    using that assms(2) by blast
  have fill: "emits ?Q (fill_cover_letter_with_verification b cover_text)"
    by (rule emits_fill_cover_letter) (auto intro!: other simp: about_def)
  have resume: "emits ?Q (select_specific_resume b lower (resume_match cfg))"
    by (rule emits_select_specific_resume) (auto intro!: other simp: about_def)
  have any: "emits ?Q (select_any_resume_if_needed b lower)"
    by (rule emits_select_any_resume) (auto intro!: other simp: about_def)
  have consents: "emits ?Q (check_consents_if_needed b)"
    by (rule emits_check_consents) (auto intro!: other simp: about_def)
  have shot: "emits ?Q (make_shot b True tag)" for tag
    by (rule emits_make_shot) (auto intro!: other simp: about_def)
  have retries: "adds P (3 * k + 0) (submit_with_retries b)"
    unfolding submit_with_retries_def
    by (intro adds_bind adds_submit_loop assms(1) adds_if adds_ret adds_quiet emits_intros shot)
  have "adds P (0 + (0 + (0 + (0 + (3 * k + 0)))))
          (add_cover_letter_and_submit b cfg lower cover_text)"
    unfolding add_cover_letter_and_submit_def
    by (intro adds_bind adds_if adds_quiet retries fill resume any consents shot emits_intros)
  then show ?thesis by simp
qed

text \<open>
  C4. \<open>add_cover_letter_and_submit\<close> always returns (with a result or an exception) and
  starts at most 3 submission cycles, each with at most two clicks on the submit
  control (the click and its one retry). \<open>fill_cover_letter_with_verification\<close> always
  returns a result and starts at most 3 passes over its textarea strategies: exactly 3
  when it reports failure.
\<close>

theorem bounded_retries:
  "(\<exists>r evs. add_cover_letter_and_submit b cfg lower cover_text h = (r, evs @ h)
       \<and> count_where cycle_start evs \<le> 3 \<and> count_where submit_click evs \<le> 6)
   \<and> (\<exists>ok evs. fill_cover_letter_with_verification b cover_text h = (Inr ok, evs @ h)
       \<and> count_where attempt_start evs \<le> 3
       \<and> (if ok then True else count_where attempt_start evs = 3))"
proof -
  have s: "adds cycle_start (3 * 1) (add_cover_letter_and_submit b cfg lower cover_text)"
    by (rule adds_add_cover_letter_and_submit [OF submit_cycle_starts])
       (simp add: cycle_start_def about_def)
  have c: "adds submit_click (3 * 2) (add_cover_letter_and_submit b cfg lower cover_text)"
    by (rule adds_add_cover_letter_and_submit [OF submit_cycle_clicks])
       (simp add: submit_click_def)
  obtain evs where e: "snd (add_cover_letter_and_submit b cfg lower cover_text h) = evs @ h"
      "count_where cycle_start evs \<le> 3"
    using s unfolding adds_def by auto
  obtain evs' where e': "snd (add_cover_letter_and_submit b cfg lower cover_text h) = evs' @ h"
      "count_where submit_click evs' \<le> 6"
    using c unfolding adds_def by auto
  have "evs' = evs"
    using e(1) e'(1) by simp
  then have submit: "\<exists>r evs. add_cover_letter_and_submit b cfg lower cover_text h = (r, evs @ h)
       \<and> count_where cycle_start evs \<le> 3 \<and> count_where submit_click evs \<le> 6"
    using e e'(2) by (metis prod.collapse)
  obtain fevs where f: "fill_cover_letter_with_verification b cover_text h
              = (Inr (accepted_in b cover_text fevs h), fevs @ h)"
    "if accepted_in b cover_text fevs h
     then (\<exists>ta rest. fevs = InputValue ta # rest \<and> \<not> accepted_in b cover_text rest h)
          \<and> count_where attempt_start fevs \<le> 3
     else count_where attempt_start fevs = 3"
    using fill_run_cover_letter [of b cover_text] unfolding fill_run_def by blast
  have "count_where attempt_start fevs \<le> 3
        \<and> (if accepted_in b cover_text fevs h then True else count_where attempt_start fevs = 3)"
    using f(2) by (cases "accepted_in b cover_text fevs h") simp_all
  with f(1) have fill: "\<exists>ok evs. fill_cover_letter_with_verification b cover_text h = (Inr ok, evs @ h)
       \<and> count_where attempt_start evs \<le> 3
       \<and> (if ok then True else count_where attempt_start evs = 3)"
    by blast
  from submit fill show ?thesis ..
qed

theorem bounded_retries_witness:
  "(\<exists>r evs. add_cover_letter_and_submit blank_site lenient_config (\<lambda>s. s) letter40 [] = (r, evs)
       \<and> count_where cycle_start evs = 3 \<and> count_where submit_click evs \<le> 6)
   \<and> (\<exists>evs. fill_cover_letter_with_verification blank_site letter40 [] = (Inr False, evs)
       \<and> count_where attempt_start evs = 3)"
proof -
  let ?run = "add_cover_letter_and_submit blank_site lenient_config (\<lambda>s. s) letter40 []"
  let ?fill = "fill_cover_letter_with_verification blank_site letter40 []"
  have cycles: "count_where cycle_start (snd ?run) = 3"
    by (simp add: add_cover_letter_and_submit_def fill_cover_letter_with_verification_def
      togglers_def textarea_selectors_def try_textarea_def select_specific_resume_def
      select_any_resume_if_needed_def resume_fallbacks_def
      resume_textual_def resume_containers_def check_consents_if_needed_def
      consent_candidates_def submit_with_retries_def submit_cycle_def find_enabled_submit_def
      submit_candidates_def submit_enabled_def fill_attempts_3 submit_loop_3 Let_def
      cycle_start_def blank_site_def lenient_config_def prog_defs)
  have failed: "fst ?fill = Inr False"
    by (simp add: fill_cover_letter_with_verification_def togglers_def textarea_selectors_def
      try_textarea_def fill_attempts_3 Let_def blank_site_def prog_defs)
  from bounded_retries [of blank_site lenient_config "\<lambda>s. s" letter40 "[]"]
  obtain r evs ok fevs where
    run: "?run = (r, evs @ [])" "count_where submit_click evs \<le> 6"
    and fill: "?fill = (Inr ok, fevs @ [])"
      "if ok then True else count_where attempt_start fevs = 3"
    by blast
  have "\<not> ok" using failed fill(1) by simp
  then have "?fill = (Inr False, fevs) \<and> count_where attempt_start fevs = 3"
    using fill by simp
  moreover have "?run = (r, evs) \<and> count_where cycle_start evs = 3
                 \<and> count_where submit_click evs \<le> 6"
    using run cycles by simp
  ultimately show ?thesis by blast
qed

section \<open>The seen-store and the main loop\<close>

lemma record_result_seen [simp]: "seen (record_result env vurl result title s) = seen s"
  by (cases result) (simp_all add: record_result_def Let_def)

lemma record_result_journal:
  "\<exists>rows. journal (record_result env vurl result title s) = rows @ journal s
          \<and> list_all is_csv_row rows \<and> list_all (\<lambda>ev. \<not> visit_of vac_id ev) rows"
proof (cases result)
  case SUCCESS
  show ?thesis
  proof (cases "csv_fails env (journal s)")
    case True
    then have "journal (record_result env vurl result title s) = [] @ journal s"
      using SUCCESS by (simp add: record_result_def Let_def)
    then show ?thesis by (intro exI [of _ "[]"]) simp
  next
    case False
    then have "journal (record_result env vurl result title s)
               = [CsvRow (if title \<noteq> [] then title else py vurl) vurl] @ journal s"
      using SUCCESS by (simp add: record_result_def Let_def)
    moreover have "list_all is_csv_row [CsvRow (if title \<noteq> [] then title else py vurl) vurl]"
      "list_all (\<lambda>ev. \<not> visit_of vac_id ev) [CsvRow (if title \<noteq> [] then title else py vurl) vurl]"
      by simp_all
    ultimately show ?thesis by blast
  qed
next
  case SKIPPED_ALREADY_APPLIED
  then have "journal (record_result env vurl result title s) = [] @ journal s"
    by (simp add: record_result_def)
  then show ?thesis by (intro exI [of _ "[]"]) simp
next
  case ERROR
  then have "journal (record_result env vurl result title s) = [] @ journal s"
    by (simp add: record_result_def)
  then show ?thesis by (intro exI [of _ "[]"]) simp
qed

lemma mark_seen_keeps: "is_seen tbl vac_id \<Longrightarrow> is_seen (mark_seen fails now other tbl) vac_id"
  by (auto simp: is_seen_def mark_seen_def insert_or_ignore_def split: option.splits)

lemma mark_seen_new:
  "\<not> is_seen tbl vac_id \<Longrightarrow> mark_seen False now vac_id tbl vac_id = Some now"
  by (simp add: is_seen_def mark_seen_def insert_or_ignore_def)

lemma cleanup_keeps:
  "tbl vac_id = Some t \<Longrightarrow> ttl_days \<le> 0 \<or> now - ttl_days * 86400 \<le> t
   \<Longrightarrow> cleanup ttl_days now tbl vac_id = Some t"
  by (auto simp: cleanup_def)

text \<open>The loop never visits a listing that the store holds, and never drops it.\<close>

lemma seen_is_skipped:
  assumes "is_seen (seen s) vac_id"
    and "process_links env b cfg lower dry_run cover_text links s = Inr s'"
  shows "is_seen (seen s') vac_id
         \<and> (\<exists>new. journal s' = new @ journal s \<and> list_all (\<lambda>ev. \<not> visit_of vac_id ev) new)"
  using assms
proof (induction links arbitrary: s)
  case Nil
  then show ?case by simp
next
  case (Cons vurl links)
  let ?id = "extract_vacancy_id vurl"
  show ?case
  proof (cases "stop_requested env (journal s) \<or> max_applies cfg \<le> done_count s")
    case True
    then have "s' = s" using Cons.prems(2) by (auto split: if_splits)
    then show ?thesis using Cons.prems(1) by simp
  next
    case go: False
    show ?thesis
    proof (cases "is_seen (seen s) ?id")
      case True
      let ?s1 = "s\<lparr>counters := (counters s)\<lparr>skipped_seen := skipped_seen (counters s) + 1\<rparr>,
                   journal := SkippedSeen ?id # journal s\<rparr>"
      have run: "process_links env b cfg lower dry_run cover_text links ?s1 = Inr s'"
        using Cons.prems(2) go True by simp
      have "is_seen (seen ?s1) vac_id" using Cons.prems(1) by simp
      from Cons.IH [OF this run] obtain new where
        n: "is_seen (seen s') vac_id" "journal s' = new @ journal ?s1"
           "list_all (\<lambda>ev. \<not> visit_of vac_id ev) new"
        by blast
      have "journal s' = (new @ [SkippedSeen ?id]) @ journal s"
        "list_all (\<lambda>ev. \<not> visit_of vac_id ev) (new @ [SkippedSeen ?id])"
        using n(2,3) by simp_all
      with n(1) show ?thesis by blast
    next
      case False
      then have other: "?id \<noteq> vac_id" using Cons.prems(1) by auto
      obtain r h where v: "visit b cfg lower dry_run vurl cover_text (history s) = (r, h)"
        by (cases "visit b cfg lower dry_run vurl cover_text (history s)")
      show ?thesis
      proof (cases r)
        case (Inl e)
        then have "process_links env b cfg lower dry_run cover_text (vurl # links) s = Inl e"
          using go False v by simp
        then show ?thesis using Cons.prems(2) by simp
      next
        case (Inr res)
        obtain result title where res: "res = (result, title)" by (cases res)
        let ?s1 = "s\<lparr>counters := (counters s)\<lparr>opened := opened (counters s) + 1\<rparr>,
                     history := h, journal := Visited vurl result # journal s\<rparr>"
        let ?s2 = "?s1\<lparr>seen := mark_seen (insert_fails env (journal ?s1)) (utcnow env (journal ?s1))
                                 ?id (seen ?s1),
                       journal := MarkSeen ?id # journal ?s1\<rparr>"
        let ?s3 = "record_result env vurl result title ?s2"
        let ?s4 = "?s3\<lparr>history := HumanPause DefaultPause # history ?s3\<rparr>"
        have run: "process_links env b cfg lower dry_run cover_text links ?s4 = Inr s'"
          using Cons.prems(2) go False v Inr res by (simp add: Let_def)
        obtain rows where rows: "journal ?s3 = rows @ journal ?s2"
            "list_all (\<lambda>ev. \<not> visit_of vac_id ev) rows"
          using record_result_journal [of env vurl result title ?s2 vac_id] by blast
        have "is_seen (seen ?s4) vac_id"
          using Cons.prems(1) by (simp add: mark_seen_keeps)
        from Cons.IH [OF this run] obtain new where
          n: "is_seen (seen s') vac_id" "journal s' = new @ journal ?s4"
             "list_all (\<lambda>ev. \<not> visit_of vac_id ev) new"
          by blast
        have "journal s' = (new @ rows @ [MarkSeen ?id, Visited vurl result]) @ journal s"
          using n(2) rows(1) by simp
        moreover have "list_all (\<lambda>ev. \<not> visit_of vac_id ev)
                         (new @ rows @ [MarkSeen ?id, Visited vurl result])"
          using n(3) rows(2) other by simp
        ultimately show ?thesis using n(1) by blast
      qed
    qed
  qed
qed

text \<open>
  C10, as stated, fails when the insert of \<^verbatim>\<open>mark_seen\<close> fails, which \<^verbatim>\<open>mark_seen\<close>
  swallows: two links of one search page with the same identifier, a site whose
  navigation times out (so each visit ends in \<open>ERROR\<close>) and a database that refuses the
  insert. \<^verbatim>\<open>mark_seen\<close> is invoked after the first visit, and the listing is visited
  again. The journal lists the latest event first.
\<close>

theorem failed_insert_counterexample:
  "\<exists>s. process_links (quiet_env True) (unreachable_site PWTimeoutError) strict_config (\<lambda>s. s)
         False letter40 [''https://hh.ru/vacancy/1'', ''https://spb.hh.ru/vacancy/1''] fresh_state
       = Inr s
     \<and> journal s = [MarkSeen ''1'', Visited ''https://spb.hh.ru/vacancy/1'' ERROR,
                     MarkSeen ''1'', Visited ''https://hh.ru/vacancy/1'' ERROR]"
proof -
  have id1: "extract_vacancy_id ''https://hh.ru/vacancy/1'' = ''1''"
    by (simp add: extract_vacancy_id_def match_here_def is_digit_def)
  have id2: "extract_vacancy_id ''https://spb.hh.ru/vacancy/1'' = ''1''"
    by (simp add: extract_vacancy_id_def match_here_def is_digit_def)
  have v: "visit (unreachable_site PWTimeoutError) strict_config (\<lambda>s. s) False url letter40 h
           = (Inr (ERROR, []), ClosePage # Screenshot ''vacancy_timeout'' # Goto url 30000
                # SetDefaultTimeout 30000 # OnConsole # NewPage # h)" for url h
    by (simp add: visit_def apply_to_vacancy_def apply_on_page_def on_error_def close_page_def
        unreachable_site_def prog_defs)
  have cap: "max_applies strict_config = 200"
    by (simp add: strict_config_def)
  show ?thesis
    by (simp add: id1 id2 v cap quiet_env_def fresh_state_def is_seen_def
        mark_seen_def record_result_def Let_def)
qed

text \<open>
  C10 (amended). A listing that the loop reaches (no stop signal, the cap not reached)
  and that is not in the seen-store is visited, and whatever the outcome of the visit,
  \<^verbatim>\<open>mark_seen\<close> is invoked on its identifier right after the visit, before the result
  is counted. When the insert of \<^verbatim>\<open>mark_seen\<close> does not fail, the store then holds the
  identifier with the time of the insert, and from any state whose store is what
  \<^verbatim>\<open>cleanup\<close> leaves of it while the row is not older than the TTL (or the TTL is not
  positive: then nothing is deleted), no run of the loop visits a listing with that
  identifier again.
\<close>

theorem mark_seen_after_visit:
  assumes "\<not> stop_requested env (journal s)"
    and "done_count s < max_applies cfg"
    and "\<not> is_seen (seen s) (extract_vacancy_id vurl)"
    and "visit b cfg lower dry_run vurl cover_text (history s) = (Inr (result, title), h)"
  shows "\<exists>s1 rows.
           process_links env b cfg lower dry_run cover_text (vurl # links) s
             = process_links env b cfg lower dry_run cover_text links s1
         \<and> journal s1 = rows @ MarkSeen (extract_vacancy_id vurl) # Visited vurl result # journal s
         \<and> list_all is_csv_row rows
         \<and> (insert_fails env (Visited vurl result # journal s)
            \<or> (seen s1 (extract_vacancy_id vurl) = Some (utcnow env (Visited vurl result # journal s))
               \<and> (\<forall>ttl_days now sx env' b' cfg' lower' dry_run' cover_text' links' s2.
                     (ttl_days \<le> 0 \<or> now - ttl_days * 86400 \<le> utcnow env (Visited vurl result # journal s))
                     \<and> seen sx = cleanup ttl_days now (seen s1)
                     \<and> process_links env' b' cfg' lower' dry_run' cover_text' links' sx = Inr s2
                     \<longrightarrow> is_seen (seen s2) (extract_vacancy_id vurl)
                         \<and> (\<exists>new. journal s2 = new @ journal sx
                              \<and> list_all (\<lambda>ev. \<not> visit_of (extract_vacancy_id vurl) ev) new))))"
proof -
  let ?id = "extract_vacancy_id vurl"
  let ?j1 = "Visited vurl result # journal s"
  let ?s1 = "s\<lparr>counters := (counters s)\<lparr>opened := opened (counters s) + 1\<rparr>,
               history := h, journal := ?j1\<rparr>"
  let ?s2 = "?s1\<lparr>seen := mark_seen (insert_fails env ?j1) (utcnow env ?j1) ?id (seen ?s1),
                 journal := MarkSeen ?id # ?j1\<rparr>"
  let ?s3 = "record_result env vurl result title ?s2"
  let ?s4 = "?s3\<lparr>history := HumanPause DefaultPause # history ?s3\<rparr>"
  have step: "process_links env b cfg lower dry_run cover_text (vurl # links) s
              = process_links env b cfg lower dry_run cover_text links ?s4"
    using assms by (simp add: Let_def)
  obtain rows where rows: "journal ?s3 = rows @ journal ?s2" "list_all is_csv_row rows"
    using record_result_journal [of env vurl result title ?s2 ?id] by blast
  have j: "journal ?s4 = rows @ MarkSeen ?id # Visited vurl result # journal s"
    using rows(1) by simp
  have later: "seen ?s4 ?id = Some (utcnow env ?j1)
      \<and> (\<forall>ttl_days now sx env' b' cfg' lower' dry_run' cover_text' links' s2.
            (ttl_days \<le> 0 \<or> now - ttl_days * 86400 \<le> utcnow env ?j1)
            \<and> seen sx = cleanup ttl_days now (seen ?s4)
            \<and> process_links env' b' cfg' lower' dry_run' cover_text' links' sx = Inr s2
            \<longrightarrow> is_seen (seen s2) ?id
                \<and> (\<exists>new. journal s2 = new @ journal sx
                     \<and> list_all (\<lambda>ev. \<not> visit_of ?id ev) new))"
    if ok: "\<not> insert_fails env ?j1"
  proof -
    have held: "seen ?s4 ?id = Some (utcnow env ?j1)"
      using ok assms(3) by (simp add: mark_seen_new)
    have "is_seen (seen s2) ?id
          \<and> (\<exists>new. journal s2 = new @ journal sx \<and> list_all (\<lambda>ev. \<not> visit_of ?id ev) new)"
      if "ttl_days \<le> 0 \<or> now - ttl_days * 86400 \<le> utcnow env ?j1"
        and "seen sx = cleanup ttl_days now (seen ?s4)"
        and "process_links env' b' cfg' lower' dry_run' cover_text' links' sx = Inr s2"
      for ttl_days now sx env' b' cfg' lower' dry_run' cover_text' links' s2
    proof -
      have "cleanup ttl_days now (seen ?s4) ?id = Some (utcnow env ?j1)"
        using held that(1) by (intro cleanup_keeps)
      then have "seen sx ?id = Some (utcnow env ?j1)"
        using that(2) by simp
      then have "is_seen (seen sx) ?id" by (simp add: is_seen_def)
      from seen_is_skipped [OF this that(3)] show ?thesis .
    qed
    with held show ?thesis by blast
  qed
  show ?thesis
    using step j rows(2) later by blast
qed

theorem mark_seen_after_visit_witness:
  "\<not> is_seen (seen fresh_state) (extract_vacancy_id ''https://hh.ru/vacancy/1'')
   \<and> visit (unreachable_site PWTimeoutError) strict_config (\<lambda>s. s) False
       ''https://hh.ru/vacancy/1'' letter40 (history fresh_state)
     = (Inr (ERROR, []),
        [ClosePage, Screenshot ''vacancy_timeout'', Goto ''https://hh.ru/vacancy/1'' 30000,
         SetDefaultTimeout 30000, OnConsole, NewPage])
   \<and> (\<exists>s1 rows. process_links (quiet_env False) (unreachable_site PWTimeoutError) strict_config
             (\<lambda>s. s) False letter40 [''https://hh.ru/vacancy/1''] fresh_state = Inr s1
          \<and> journal s1 = rows @ [MarkSeen ''1'', Visited ''https://hh.ru/vacancy/1'' ERROR]
          \<and> is_seen (seen s1) ''1'')"
proof -
  let ?u = "''https://hh.ru/vacancy/1''"
  let ?env = "quiet_env False"
  let ?b = "unreachable_site PWTimeoutError"
  have id1: "extract_vacancy_id ?u = ''1''"
    by (simp add: extract_vacancy_id_def match_here_def is_digit_def)
  have a1: "\<not> stop_requested ?env (journal fresh_state)"
    by (simp add: quiet_env_def)
  have a2: "done_count fresh_state < max_applies strict_config"
    by (simp add: fresh_state_def strict_config_def)
  have a3: "\<not> is_seen (seen fresh_state) (extract_vacancy_id ?u)"
    by (simp add: fresh_state_def is_seen_def)
  have a4: "visit ?b strict_config (\<lambda>s. s) False ?u letter40 (history fresh_state)
            = (Inr (ERROR, []),
               [ClosePage, Screenshot ''vacancy_timeout'', Goto ?u 30000,
                SetDefaultTimeout 30000, OnConsole, NewPage])"
    by (simp add: visit_def apply_to_vacancy_def apply_on_page_def on_error_def close_page_def
        unreachable_site_def fresh_state_def prog_defs)
  from mark_seen_after_visit [OF a1 a2 a3 a4, of "[]"]
  obtain s1 rows where
    s1: "process_links ?env ?b strict_config (\<lambda>s. s) False letter40 [?u] fresh_state
         = process_links ?env ?b strict_config (\<lambda>s. s) False letter40 [] s1"
    and j1: "journal s1 = rows @ MarkSeen (extract_vacancy_id ?u) # Visited ?u ERROR
                           # journal fresh_state"
    and later: "insert_fails ?env (Visited ?u ERROR # journal fresh_state)
       \<or> seen s1 (extract_vacancy_id ?u)
            = Some (utcnow ?env (Visited ?u ERROR # journal fresh_state))"
    by blast
  have "\<not> insert_fails ?env (Visited ?u ERROR # journal fresh_state)"
    by (simp add: quiet_env_def)
  with later have held: "is_seen (seen s1) ''1''"
    unfolding id1 by (simp add: is_seen_def)
  have "process_links ?env ?b strict_config (\<lambda>s. s) False letter40 [?u] fresh_state = Inr s1"
    using s1 by simp
  moreover have "journal s1 = rows @ [MarkSeen ''1'', Visited ?u ERROR]"
    using j1 unfolding id1 by (simp add: fresh_state_def)
  ultimately show ?thesis
    using a3 a4 held by blast
qed

section \<open>The sibling workflow stops when the resume is missing\<close>

text \<open>
  In hh\_auto\_apply\_refactored.py the strict mode does what its name says. When the
  cover letter does not stop the workflow, no resume matches (\<open>select_specific_resume\<close>
  returns False) and \<^verbatim>\<open>fail_if_resume_not_found\<close> is set,
  \<open>add_cover_letter_and_submit_refactored\<close> returns False, reported as \<open>ERROR\<close>; its last
  call is the screenshot tagged \<open>resume_not_found\<close>, and none of its calls is about a
  submit control.
\<close>

theorem refactored_strict_mode_stops:
  assumes "fail_if_resume_not_found cfg"
    and "fill_cover_letter_with_verification b cover_text h = (Inr letter_ok, h1)"
    and "letter_ok \<or> \<not> require_cover_letter cfg"
    and "select_specific_resume b lower (resume_match cfg) h1 = (Inr False, h2)"
  shows "\<exists>evs. add_cover_letter_and_submit_refactored b cfg lower cover_text h
                 = (Inr False, Screenshot ''resume_not_found'' # evs @ h)
               \<and> list_all (\<lambda>a. \<not> about SubmitControl a) evs
               \<and> outcome_of False = ERROR"
proof -
  let ?quiet = "\<lambda>a. \<not> about SubmitControl a"
  have "emits ?quiet (fill_cover_letter_with_verification b cover_text)"
    by (rule emits_fill_cover_letter) (auto simp: about_def)
  then obtain evs1 where e1: "h1 = evs1 @ h" "list_all ?quiet evs1"
    using assms(2) unfolding emits_def by (metis snd_conv)
  have "emits ?quiet (select_specific_resume b lower (resume_match cfg))"
    by (rule emits_select_specific_resume) (auto simp: about_def)
  then obtain evs2 where e2: "h2 = evs2 @ h1" "list_all ?quiet evs2"
    using assms(4) unfolding emits_def by (metis snd_conv)
  have letter: "\<not> (require_cover_letter cfg \<and> \<not> letter_ok)"
    using assms(3) by blast
  have "add_cover_letter_and_submit_refactored b cfg lower cover_text h
        = bind (make_shot b True ''resume_not_found'') (\<lambda>u. ret False) h2"
    using assms(1,2,4) letter
    by (cases "require_cover_letter cfg")
       (simp_all add: add_cover_letter_and_submit_refactored_def bind_def)
  also have "\<dots> = (Inr False, Screenshot ''resume_not_found'' # h2)"
    by (simp add: bind_def make_shot_def try_except_def perform_def ask_def ret_def
        split: option.splits)
  finally have "add_cover_letter_and_submit_refactored b cfg lower cover_text h
        = (Inr False, Screenshot ''resume_not_found'' # h2)" .
  then have "add_cover_letter_and_submit_refactored b cfg lower cover_text h
        = (Inr False, Screenshot ''resume_not_found'' # (evs2 @ evs1) @ h)"
    using e1(1) e2(1) by simp
  moreover have "list_all ?quiet (evs2 @ evs1)"
    using e1(2) e2(2) by simp
  moreover have "outcome_of False = ERROR"
    by (simp add: outcome_of_def)
  ultimately show ?thesis by blast
qed

theorem refactored_strict_mode_stops_witness:
  "fail_if_resume_not_found strict_config
   \<and> (\<exists>evs. add_cover_letter_and_submit_refactored (form_site letter40) strict_config (\<lambda>s. s)
               letter40 []
              = (Inr False, Screenshot ''resume_not_found'' # evs)
            \<and> list_all (\<lambda>a. \<not> about SubmitControl a) evs)"
proof -
  let ?b = "form_site letter40"
  let ?h1 = "[InputValue (First (Loc (Cover COVER_LETTER_TEXTAREA))),
     HumanPause (PauseBetween 200 400),
     Fill (First (Loc (Cover COVER_LETTER_TEXTAREA))) letter40,
     KeyboardPress ''Control+A'',
     Click (First (Loc (Cover COVER_LETTER_TEXTAREA))) False,
     WaitVisible (First (First (Loc (Cover COVER_LETTER_TEXTAREA)))) 900,
     WaitVisible (First (Loc (Cover COVER_LETTER_TOGGLE))) 800,
     WaitVisible (First (ByText DOBAVIT_SOPROVODITELNOE)) 800,
     WaitVisible (First (ByRoleButton DOBAVIT_SOPROVODITELNOE)) 800]"
  have a1: "fail_if_resume_not_found strict_config"
    by (simp add: strict_config_def)
  have a2: "fill_cover_letter_with_verification ?b letter40 [] = (Inr True, ?h1)"
    using readback_letter40
    by (simp add: fill_cover_letter_with_verification_def togglers_def textarea_selectors_def
        try_textarea_def fill_attempts_3 Let_def form_site_def prog_defs)
  have a4: "fst (select_specific_resume ?b (\<lambda>s. s) (resume_match strict_config) ?h1) = Inr False"
    by (simp add: select_specific_resume_def resume_textual_def resume_containers_def
        form_site_def prog_defs)
  then obtain h2 where
    a4': "select_specific_resume ?b (\<lambda>s. s) (resume_match strict_config) ?h1 = (Inr False, h2)"
    by (metis prod.collapse)
  from refactored_strict_mode_stops [OF a1 a2 _ a4']
  show ?thesis using a1 by auto
qed

section \<open>Further properties of the workflow\<close>

subsection \<open>What qualifies a submit button\<close>

lemma submit_enabled_unfold:
  "submit_enabled b btn h =
    (case raises b h (WaitVisible (First btn) 900) of
       Some e \<Rightarrow> (Inr False, WaitVisible (First btn) 900 # h)
     | None \<Rightarrow>
        (case raises b (WaitVisible (First btn) 900 # h) (GetAttribute btn ''disabled'') of
           Some e \<Rightarrow> (Inr False, GetAttribute btn ''disabled'' # WaitVisible (First btn) 900 # h)
         | None \<Rightarrow>
            (case raises b (GetAttribute btn ''disabled'' # WaitVisible (First btn) 900 # h)
                    (GetAttribute btn ''aria-disabled'') of
               Some e \<Rightarrow> (Inr False, GetAttribute btn ''aria-disabled''
                            # GetAttribute btn ''disabled'' # WaitVisible (First btn) 900 # h)
             | None \<Rightarrow>
                (Inr (falsy (attr_reply b (WaitVisible (First btn) 900 # h)
                               (GetAttribute btn ''disabled''))
                      \<and> (attr_reply b (GetAttribute btn ''disabled'' # WaitVisible (First btn) 900 # h)
                            (GetAttribute btn ''aria-disabled'') = None
                         \<or> attr_reply b (GetAttribute btn ''disabled'' # WaitVisible (First btn) 900 # h)
                            (GetAttribute btn ''aria-disabled'') = Some (py ''false''))),
                 GetAttribute btn ''aria-disabled'' # GetAttribute btn ''disabled''
                   # WaitVisible (First btn) 900 # h))))"
  by (simp add: submit_enabled_def is_visible_def try_except_def bind_def perform_def ask_def
      ret_def split: option.splits)

lemma submit_enabled_true:
  assumes "submit_enabled b btn h = (Inr True, h')"
  shows "h' = GetAttribute btn ''aria-disabled'' # GetAttribute btn ''disabled''
              # WaitVisible (First btn) 900 # h
         \<and> raises b h (WaitVisible (First btn) 900) = None
         \<and> falsy (attr_reply b (WaitVisible (First btn) 900 # h) (GetAttribute btn ''disabled''))
         \<and> (attr_reply b (GetAttribute btn ''disabled'' # WaitVisible (First btn) 900 # h)
               (GetAttribute btn ''aria-disabled'') = None
            \<or> attr_reply b (GetAttribute btn ''disabled'' # WaitVisible (First btn) 900 # h)
               (GetAttribute btn ''aria-disabled'') = Some (py ''false''))"
  using assms unfolding submit_enabled_unfold
  by (simp split: option.splits)

lemma total_submit_enabled: "total (submit_enabled b btn)"
  unfolding submit_enabled_def by (intro total_intros)

text \<open>
  The button that \<open>find_enabled_submit\<close> returns is the first element of one of the
  submit strategies, and the three latest calls are its probe: the wait for visibility
  did not raise, the value of \<^verbatim>\<open>disabled\<close> was None or the empty string, and the value
  of \<^verbatim>\<open>aria-disabled\<close> was None or the string \<^verbatim>\<open>false\<close>.
\<close>

lemma find_enabled_submit_from_some:
  assumes "find_enabled_submit_from b sels h = (Inr (Some btn), h')"
  shows "\<exists>sel hp. sel \<in> set sels \<and> btn = First (Loc sel)
           \<and> h' = GetAttribute btn ''aria-disabled'' # GetAttribute btn ''disabled''
                    # WaitVisible (First btn) 900 # hp
           \<and> raises b hp (WaitVisible (First btn) 900) = None
           \<and> falsy (attr_reply b (WaitVisible (First btn) 900 # hp) (GetAttribute btn ''disabled''))
           \<and> (attr_reply b (GetAttribute btn ''disabled'' # WaitVisible (First btn) 900 # hp)
                 (GetAttribute btn ''aria-disabled'') = None
              \<or> attr_reply b (GetAttribute btn ''disabled'' # WaitVisible (First btn) 900 # hp)
                 (GetAttribute btn ''aria-disabled'') = Some (py ''false''))"
  using assms
proof (induction sels arbitrary: h)
  case Nil
  then show ?case by (simp add: ret_def)
next
  case (Cons sel sels)
  obtain ok h1 where se: "submit_enabled b (First (Loc sel)) h = (Inr ok, h1)"
    using totalD [OF total_submit_enabled] by blast
  show ?case
  proof (cases ok)
    case True
    then have "btn = First (Loc sel)" "h' = h1"
      using Cons.prems se by (simp_all add: bind_def ret_def)
    then show ?thesis
      using submit_enabled_true [of b "First (Loc sel)" h h1] se True
      by (intro exI [of _ sel] exI [of _ h]) simp
  next
    case False
    then have "find_enabled_submit_from b sels h1 = (Inr (Some btn), h')"
      using Cons.prems se by (simp add: bind_def)
    from Cons.IH [OF this] show ?thesis by auto
  qed
qed

theorem qualifying_submit_button:
  assumes "find_enabled_submit b h = (Inr (Some btn), h')"
  shows "\<exists>sel hp. sel \<in> set submit_candidates \<and> btn = First (Loc sel)
           \<and> h' = GetAttribute btn ''aria-disabled'' # GetAttribute btn ''disabled''
                    # WaitVisible (First btn) 900 # hp
           \<and> raises b hp (WaitVisible (First btn) 900) = None
           \<and> falsy (attr_reply b (WaitVisible (First btn) 900 # hp) (GetAttribute btn ''disabled''))
           \<and> (attr_reply b (GetAttribute btn ''disabled'' # WaitVisible (First btn) 900 # hp)
                 (GetAttribute btn ''aria-disabled'') = None
              \<or> attr_reply b (GetAttribute btn ''disabled'' # WaitVisible (First btn) 900 # hp)
                 (GetAttribute btn ''aria-disabled'') = Some (py ''false''))"
  using assms unfolding find_enabled_submit_def
  by (rule find_enabled_submit_from_some)

theorem qualifying_submit_button_witness:
  "find_enabled_submit (form_site letter40) [] =
     (Inr (Some (First (Loc (Submit SUBMIT_BUTTON)))),
      [GetAttribute (First (Loc (Submit SUBMIT_BUTTON))) ''aria-disabled'',
       GetAttribute (First (Loc (Submit SUBMIT_BUTTON))) ''disabled'',
       WaitVisible (First (First (Loc (Submit SUBMIT_BUTTON)))) 900])
   \<and> (\<exists>sel. sel \<in> set submit_candidates
         \<and> First (Loc (Submit SUBMIT_BUTTON)) = First (Loc sel))"
proof -
  have f: "find_enabled_submit (form_site letter40) [] =
     (Inr (Some (First (Loc (Submit SUBMIT_BUTTON)))),
      [GetAttribute (First (Loc (Submit SUBMIT_BUTTON))) ''aria-disabled'',
       GetAttribute (First (Loc (Submit SUBMIT_BUTTON))) ''disabled'',
       WaitVisible (First (First (Loc (Submit SUBMIT_BUTTON)))) 900])"
    by (simp add: find_enabled_submit_def submit_candidates_def submit_enabled_def falsy_def
        form_site_def prog_defs)
  from qualifying_submit_button [OF f] show ?thesis
    using f by blast
qed

subsection \<open>Navigation timeout\<close>

text \<open>
  When the page opens and \<^verbatim>\<open>page.goto\<close> raises the timeout error, \<open>apply_to_vacancy\<close>
  takes the screenshot tagged \<open>vacancy_timeout\<close>, closes the page and returns \<open>ERROR\<close>
  with the empty title.
\<close>

theorem navigation_timeout:
  assumes "raises b h NewPage = None"
    and "raises b (NewPage # h) OnConsole = None"
    and "raises b (OnConsole # NewPage # h) (SetDefaultTimeout 30000) = None"
    and "raises b (SetDefaultTimeout 30000 # OnConsole # NewPage # h) (Goto url 30000)
         = Some PWTimeoutError"
  shows "apply_to_vacancy b cfg lower url cover_text h =
           (Inr (ERROR, []),
            ClosePage # Screenshot ''vacancy_timeout'' # Goto url 30000 # SetDefaultTimeout 30000
              # OnConsole # NewPage # h)"
  using assms
  by (simp add: apply_to_vacancy_def apply_on_page_def on_error_def close_page_def prog_defs
      split: option.splits)

theorem navigation_timeout_witness:
  "apply_to_vacancy (unreachable_site PWTimeoutError) strict_config (\<lambda>s. s)
     ''https://hh.ru/vacancy/1'' letter40 [] =
   (Inr (ERROR, []),
    [ClosePage, Screenshot ''vacancy_timeout'', Goto ''https://hh.ru/vacancy/1'' 30000,
     SetDefaultTimeout 30000, OnConsole, NewPage])"
proof -
  have r: "\<And>h a. (\<And>url t. a \<noteq> Goto url t) \<Longrightarrow> raises (unreachable_site PWTimeoutError) h a = None"
    by (simp add: unreachable_site_def split: action.splits)
  have g: "\<And>h url t. raises (unreachable_site PWTimeoutError) h (Goto url t) = Some PWTimeoutError"
    by (simp add: unreachable_site_def)
  from navigation_timeout [of "unreachable_site PWTimeoutError" "[]", OF r r r g]
  show ?thesis by simp
qed

subsection \<open>What leaves the workflow, and the page it leaves behind\<close>

lemma leaves_on_error: "leaves_workflow (fst (on_error b page_open title e h))"
proof -
  obtain u h1 where "make_shot b page_open ''vacancy_timeout'' h = (Inr u, h1)"
    using totalD [OF total_make_shot] by blast
  then show ?thesis
    by (cases title) (simp_all add: on_error_def leaves_workflow_def bind_def raise_def ret_def)
qed

lemma leaves_try_then:
  assumes "\<And>e h. leaves_workflow (fst (handler e h))"
    and "\<And>x h. leaves_workflow (fst (rest x h))"
  shows "leaves_workflow (fst (try_then m handler rest h))"
proof -
  obtain r h1 where "m h = (r, h1)" by (cases "m h")
  then show ?thesis
    using assms by (cases r) (simp_all add: try_then_def)
qed

lemma leaves_try_except:
  assumes "\<And>e h. leaves_workflow (fst (handler e h))"
  shows "leaves_workflow (fst (try_except m handler h))"
  unfolding try_except_as_try_then
proof (rule leaves_try_then)
  show "leaves_workflow (fst (handler e h))" for e h
    by (rule assms)
  show "leaves_workflow (fst (ret x h))" for x :: 'a and h
    by (simp add: ret_def leaves_workflow_def)
qed

lemma leaves_apply_on_page:
  "leaves_workflow (fst (apply_on_page b cfg lower url cover_text h))"
  unfolding apply_on_page_def
proof (intro leaves_try_then leaves_on_error)
  fix u :: unit and h1
  obtain title h2 where t: "extract_title b h1 = (Inr title, h2)"
    using totalD [OF total_extract_title] by blast
  have "leaves_workflow (fst (try_except (listing_body b cfg lower cover_text title)
                                (on_error b True (Some title)) h2))"
    by (rule leaves_try_except) (rule leaves_on_error)
  then show "leaves_workflow
     (fst (bind (extract_title b)
            (\<lambda>title. try_except (listing_body b cfg lower cover_text title)
                        (on_error b True (Some title))) h1))"
    using t by (simp add: bind_def)
qed

text \<open>
  \<open>apply_to_vacancy\<close> always returns a result or raises NameError or UnboundLocalError:
  no other exception leaves it. Once \<^verbatim>\<open>context.new_page()\<close> has returned, its last
  call is \<^verbatim>\<open>page.close()\<close>, whatever the outcome.
\<close>

theorem workflow_boundary:
  "\<exists>r h'. apply_to_vacancy b cfg lower url cover_text h = (r, h')
      \<and> leaves_workflow r
      \<and> (if raises b h NewPage = None then \<exists>h''. h' = ClosePage # h'' else True)"
proof (cases "raises b h NewPage")
  case None
  obtain r h1 where p: "apply_on_page b cfg lower url cover_text (NewPage # h) = (r, h1)"
    by (cases "apply_on_page b cfg lower url cover_text (NewPage # h)")
  have "leaves_workflow r"
    using leaves_apply_on_page [of b cfg lower url cover_text "NewPage # h"] p by simp
  moreover have "apply_to_vacancy b cfg lower url cover_text h = (r, ClosePage # h1)"
    using None p
    by (simp add: apply_to_vacancy_def try_then_def try_finally_def close_page_def
        try_except_def perform_def ask_def ret_def split: option.splits)
  ultimately show ?thesis using None by simp
next
  case (Some e)
  then have "apply_to_vacancy b cfg lower url cover_text h = on_error b False None e (NewPage # h)"
    by (simp add: apply_to_vacancy_def try_then_def perform_def ask_def)
  then show ?thesis
    using leaves_on_error [of b False None e "NewPage # h"] Some
    by (cases "on_error b False None e (NewPage # h)") simp
qed

theorem workflow_boundary_witness:
  "\<exists>r h'. apply_to_vacancy blank_site strict_config (\<lambda>s. s) ''https://hh.ru/vacancy/1'' letter40 []
            = (r, h')
      \<and> leaves_workflow r \<and> (\<exists>h''. h' = ClosePage # h'')"
proof -
  have "raises blank_site [] NewPage = None"
    by (simp add: blank_site_def)
  with workflow_boundary [of blank_site strict_config "\<lambda>s. s" "''https://hh.ru/vacancy/1''"
      letter40 "[]"]
  show ?thesis by simp
qed

subsection \<open>The listing workflow never reaches the form\<close>

lemma bind_raise: "bind (raise e) f = raise e"
  by (rule ext) (simp add: bind_def raise_def)

text \<open>
  What is left of the try block after the already-applied check: the apply button is
  looked up, and the attribute read that follows raises.
\<close>

lemma listing_body_stops:
  "listing_body b cfg lower cover_text title =
     bind (already_applied b)
       (\<lambda>applied. if applied then ret (SKIPPED_ALREADY_APPLIED, title)
                   else bind (get_apply_button b) (\<lambda>apply_btn. raise AttributeError))"
  by (simp add: listing_body_def use_ai_cover_letter_def bind_raise cong: if_cong)

lemma emits_on_error:
  "P (Screenshot ''vacancy_timeout'') \<Longrightarrow> emits P (on_error b page_open title e)"
  unfolding on_error_def
  by (intro emits_intros) simp_all

lemma emits_listing_body:
  assumes "\<And>l t. locator_concern l = EntryPoint \<or> locator_concern l = Confirmation
             \<Longrightarrow> P (WaitVisible l t)"
  shows "emits P (listing_body b cfg lower cover_text title)"
  unfolding listing_body_stops
  by (intro emits_intros emits_already_applied emits_get_apply_button assms) simp_all

lemma emits_apply_to_vacancy:
  "emits (\<lambda>a. \<not> form_action a) (apply_to_vacancy b cfg lower url cover_text)"
proof -
  let ?P = "\<lambda>a. \<not> form_action a"
  have shot: "?P (Screenshot ''vacancy_timeout'')"
    by (simp add: form_action_def about_def)
  have title: "emits ?P (extract_title b)"
    by (rule emits_extract_title) (auto simp: form_action_def about_def)
  have body: "emits ?P (listing_body b cfg lower cover_text t)" for t
    by (rule emits_listing_body) (rule not_form_probe)
  have err: "emits ?P (on_error b page_open t e)" for page_open t e
    by (rule emits_on_error) (rule shot)
  have page: "emits ?P (apply_on_page b cfg lower url cover_text)"
    unfolding apply_on_page_def
    by (intro emits_try_then emits_bind emits_try_except emits_perform emits_pause err title body)
       (simp_all add: form_action_def about_def)
  show ?thesis
    unfolding apply_to_vacancy_def close_page_def
    by (intro emits_try_then emits_try_finally emits_try_except emits_perform emits_ret err page)
       (simp_all add: form_action_def about_def)
qed

lemma no_success_on_error: "fst (on_error b page_open title e h) \<noteq> Inr (SUCCESS, t)"
proof -
  obtain u h1 where "make_shot b page_open ''vacancy_timeout'' h = (Inr u, h1)"
    using totalD [OF total_make_shot] by blast
  then show ?thesis
    by (cases title) (simp_all add: on_error_def bind_def raise_def ret_def)
qed

lemma no_success_try_then:
  assumes "\<And>e h. fst (handler e h) \<noteq> Inr (SUCCESS, t)"
    and "\<And>x h. fst (rest x h) \<noteq> Inr (SUCCESS, t)"
  shows "fst (try_then m handler rest h) \<noteq> Inr (SUCCESS, t)"
proof -
  obtain r h1 where "m h = (r, h1)" by (cases "m h")
  then show ?thesis
    using assms by (cases r) (simp_all add: try_then_def)
qed

lemma no_success_listing_body:
  "fst (try_except (listing_body b cfg lower cover_text title) (on_error b True (Some title)) h)
   \<noteq> Inr (SUCCESS, t)"
proof -
  obtain applied h1 where a: "already_applied b h = (Inr applied, h1)"
    using totalD [OF total_already_applied] by blast
  obtain btn h2 where g: "get_apply_button b h1 = (Inr btn, h2)"
    using totalD [OF total_get_apply_button] by blast
  show ?thesis
    using a g
    by (simp add: listing_body_stops try_except_def bind_def ret_def raise_def on_error_def)
qed

lemma no_success_apply_on_page:
  "fst (apply_on_page b cfg lower url cover_text h) \<noteq> Inr (SUCCESS, t)"
  unfolding apply_on_page_def
proof (intro no_success_try_then no_success_on_error)
  fix u :: unit and h1
  obtain title h2 where "extract_title b h1 = (Inr title, h2)"
    using totalD [OF total_extract_title] by blast
  then show "fst (bind (extract_title b)
                   (\<lambda>title. try_except (listing_body b cfg lower cover_text title)
                               (on_error b True (Some title))) h1) \<noteq> Inr (SUCCESS, t)"
    using no_success_listing_body [of b cfg lower cover_text title h2 t]
    by (simp add: bind_def)
qed

text \<open>
  No call of \<open>apply_to_vacancy\<close> is about the cover letter, a resume, a consent box or
  a submit control, and \<open>apply_to_vacancy\<close> never returns \<open>SUCCESS\<close>, whatever the site
  answers: the attribute read after the already-applied check ends every listing that
  gets there.
\<close>

theorem listing_never_reaches_form:
  "\<exists>r evs. apply_to_vacancy b cfg lower url cover_text h = (r, evs @ h)
      \<and> list_all (\<lambda>a. \<not> form_action a) evs
      \<and> r \<noteq> Inr (SUCCESS, t)"
proof -
  obtain evs where e: "snd (apply_to_vacancy b cfg lower url cover_text h) = evs @ h"
      "list_all (\<lambda>a. \<not> form_action a) evs"
    using emits_apply_to_vacancy [of b cfg lower url cover_text] unfolding emits_def by blast
  have "fst (apply_to_vacancy b cfg lower url cover_text h) \<noteq> Inr (SUCCESS, t)"
    unfolding apply_to_vacancy_def
  proof (intro no_success_try_then no_success_on_error)
    fix u :: unit and h1
    obtain r h2 where p: "apply_on_page b cfg lower url cover_text h1 = (r, h2)"
      by (cases "apply_on_page b cfg lower url cover_text h1")
    have "r \<noteq> Inr (SUCCESS, t)"
      using no_success_apply_on_page [of b cfg lower url cover_text h1 t] p by simp
    then show "fst (try_finally (apply_on_page b cfg lower url cover_text) (close_page b) h1)
               \<noteq> Inr (SUCCESS, t)"
      using p by (simp add: try_finally_def split: prod.splits sum.splits)
  qed
  with e show ?thesis
    by (metis prod.collapse)
qed

text \<open>
  An opened listing that is not skipped: when the page opens, \<open>title\<close> is the title read
  from it and the already-applied check answers False at that point, \<open>apply_to_vacancy\<close>
  raises NameError and closes the page; it has taken no screenshot and made no call of
  the application form.
\<close>

lemma emitsE:
  assumes "emits P m"
  obtains evs where "snd (m h) = evs @ h" and "list_all P evs"
  using assms unfolding emits_def by blast

theorem open_listing_raises:
  assumes "raises b h NewPage = None"
    and "raises b (NewPage # h) OnConsole = None"
    and "raises b (OnConsole # NewPage # h) (SetDefaultTimeout 30000) = None"
    and "raises b (SetDefaultTimeout 30000 # OnConsole # NewPage # h) (Goto url 30000) = None"
    and "extract_title b (HumanPause DefaultPause # Goto url 30000 # SetDefaultTimeout 30000
                           # OnConsole # NewPage # h) = (Inr title, ht)"
    and "fst (already_applied b ht) = Inr False"
  shows "\<exists>evs. apply_to_vacancy b cfg lower url cover_text h
                 = (Inl NameError, ClosePage # evs @ h)
               \<and> list_all (\<lambda>a. \<not> form_action a \<and> (\<forall>tag. a \<noteq> Screenshot tag)) evs"
proof -
  let ?quiet = "\<lambda>a. \<not> form_action a \<and> (\<forall>tag. a \<noteq> Screenshot tag)"
  let ?opened = "HumanPause DefaultPause # Goto url 30000 # SetDefaultTimeout 30000
                 # OnConsole # NewPage # h"
  have probe: "?quiet (WaitVisible l t)"
    if "locator_concern l = EntryPoint \<or> locator_concern l = Confirmation" for l t
    using that by (auto simp: form_action_def about_def)
  have "emits ?quiet (extract_title b)"
    by (rule emits_extract_title) (auto simp: form_action_def about_def)
  then obtain evs1 where t: "snd (extract_title b ?opened) = evs1 @ ?opened"
      and q1: "list_all ?quiet evs1"
    by (rule emitsE)
  from t assms(5) have e1: "ht = evs1 @ ?opened"
    by simp
  have "emits ?quiet (listing_body b cfg lower cover_text title)"
    by (rule emits_listing_body) (rule probe)
  then obtain evs2 where e2: "snd (listing_body b cfg lower cover_text title ht) = evs2 @ ht"
      and q2: "list_all ?quiet evs2"
    by (rule emitsE)
  obtain h1 where a: "already_applied b ht = (Inr False, h1)"
    using assms(6) by (cases "already_applied b ht") simp
  obtain btn h2 where g: "get_apply_button b h1 = (Inr btn, h2)"
    using totalD [OF total_get_apply_button] by blast
  have "listing_body b cfg lower cover_text title ht = (Inl AttributeError, h2)"
    using a g by (simp add: listing_body_stops bind_def raise_def)
  with e2 have body: "listing_body b cfg lower cover_text title ht
                         = (Inl AttributeError, evs2 @ ht)"
    by simp
  have page: "apply_on_page b cfg lower url cover_text (NewPage # h)
              = (Inl NameError, evs2 @ ht)"
    using assms(2-5) body
    by (simp add: apply_on_page_def try_then_def try_except_def bind_def perform_def ask_def
        human_pause_def on_error_def raise_def)
  let ?evs = "evs2 @ evs1 @ [HumanPause DefaultPause, Goto url 30000,
                SetDefaultTimeout 30000, OnConsole, NewPage]"
  have "apply_to_vacancy b cfg lower url cover_text h = (Inl NameError, ClosePage # evs2 @ ht)"
    using assms(1) page
    by (simp add: apply_to_vacancy_def try_then_def try_finally_def close_page_def
        try_except_def perform_def ask_def ret_def split: option.splits)
  then have run: "apply_to_vacancy b cfg lower url cover_text h
                  = (Inl NameError, ClosePage # ?evs @ h)"
    using e1 by simp
  have quiet: "list_all ?quiet ?evs"
    using q1 q2 by (simp add: form_action_def about_def)
  show ?thesis
    by (rule exI [of _ ?evs]) (rule conjI [OF run quiet])
qed

theorem open_listing_raises_witness:
  "\<exists>evs. apply_to_vacancy entry_site strict_config (\<lambda>s. s) ''https://hh.ru/vacancy/1'' letter40 []
           = (Inl NameError, ClosePage # evs)
         \<and> list_all (\<lambda>a. \<not> form_action a \<and> (\<forall>tag. a \<noteq> Screenshot tag)) evs"
proof -
  let ?url = "''https://hh.ru/vacancy/1''"
  let ?opened = "[HumanPause DefaultPause, Goto ?url 30000, SetDefaultTimeout 30000,
                  OnConsole, NewPage]"
  let ?ht = "PageTitle # Count (Loc (Title VACANCY_TITLE_CLASS))
             # Count (Loc (Title VACANCY_TITLE_VIEW_QA)) # Count (Loc (Title VACANCY_TITLE_QA))
             # Count (Loc (Title VACANCY_TITLE_H1)) # ?opened"
  have n1: "raises entry_site [] NewPage = None"
    and n2: "raises entry_site [NewPage] OnConsole = None"
    and n3: "raises entry_site [OnConsole, NewPage] (SetDefaultTimeout 30000) = None"
    and n4: "raises entry_site [SetDefaultTimeout 30000, OnConsole, NewPage] (Goto ?url 30000)
             = None"
    by (simp_all add: entry_site_def)
  have t: "extract_title entry_site ?opened = (Inr [], ?ht)"
    by (simp add: extract_title_def title_selectors_def read_title_def strip_def
        entry_site_def prog_defs)
  have a: "fst (already_applied entry_site ?ht) = Inr False"
    by (simp add: already_applied_def ALREADY_APPLIED_TEXT_def get_apply_button_def
        apply_candidates_def entry_site_def prog_defs)
  from open_listing_raises [where b = entry_site and h = "[]" and url = ?url
      and title = "[]" and ht = ?ht and cfg = strict_config and lower = "\<lambda>s. s"
      and cover_text = letter40, OF n1 n2 n3 n4 t a]
  show ?thesis by simp
qed

end
